theory Spec2Isabelle
  imports Complex_Main
begin

section \<open>Data model (src/types, src/model)\<close>

text \<open>
  A JavaScript \<open>number\<close> is an IEEE 754 double: a finite value, one of the two
  infinities, or NaN. A finite double is carried as the real number it denotes; the two
  zeros are not told apart (the service never divides by a zero: the only division is
  guarded by \<open>buyTicker.ask > 0\<close>). The arithmetic of doubles is defined in the next
  section: every operation rounds its result to a double, so the numbers computed from
  doubles are doubles.
\<close>

datatype number = Finite real | PosInf | NegInf | NaN

type_synonym ExchangeName = string

text \<open>
  A value typed \<open>any\<close> (\<open>raw\<close>, \<open>assetInfo\<close>): the service only carries it and tests
  whether it is truthy. An object or array is carried as an opaque text.
\<close>

datatype any = JUndefined | JNull | JBool bool | JNum number | JStr string | JObj string

fun truthy :: "any \<Rightarrow> bool" where
  "truthy JUndefined = False"
| "truthy JNull = False"
| "truthy (JBool b) = b"
| "truthy (JNum n) = (n \<noteq> Finite 0 \<and> n \<noteq> NaN)"
| "truthy (JStr s) = (s \<noteq> [])"
| "truthy (JObj s) = True"

record StandardPair =
  symbol :: string
  base :: string
  quote :: string
  exchange :: string
  raw :: any

record StandardTicker =
  ticker_exchange :: string
  price :: number
  bid :: number
  ask :: number
  ticker_raw :: any

record AssetStatus =
  canDeposit :: bool
  canWithdraw :: bool
  depositNetworks :: "string list"
  withdrawNetworks :: "string list"
  assetInfo :: any

record ArbitrageConfig =
  minProfitPercentage :: number
  quoteAssetsFilter :: "string list option"

record ExchangeData =
  name :: ExchangeName
  pairs :: "StandardPair list"

text \<open>The anonymous member type \<open>{ name; pairData }\<close> of \<open>SharedPairInfo.exchanges\<close>.\<close>

record Member =
  member_name :: ExchangeName
  pairData :: StandardPair

text \<open>
  A JavaScript \<open>Map\<close> is an association list in insertion order with pairwise distinct
  keys: \<open>set\<close> on a present key replaces the value in place, \<open>set\<close> on a new key
  appends, \<open>entries()\<close> is the list itself, \<open>size\<close> its length.
\<close>

type_synonym ('k, 'v) js_map = "('k \<times> 'v) list"

fun map_set :: "'k \<Rightarrow> 'v \<Rightarrow> ('k, 'v) js_map \<Rightarrow> ('k, 'v) js_map" where
  "map_set k v [] = [(k, v)]"
| "map_set k v ((k', v') # m) =
     (if k' = k then (k, v) # m else (k', v') # map_set k v m)"

definition map_has :: "('k, 'v) js_map \<Rightarrow> 'k \<Rightarrow> bool" where
  "map_has m k = (map_of m k \<noteq> None)"

definition map_get :: "('k, 'v) js_map \<Rightarrow> 'k \<Rightarrow> 'v option" where
  "map_get m k = map_of m k"

record SharedPairInfo =
  sp_symbol :: string
  exchanges :: "Member list"

record EnrichedPair = SharedPairInfo +
  tickers :: "(ExchangeName, StandardTicker) js_map"

text \<open>The anonymous type \<open>{ exchange; price }\<close> of \<open>buyAt\<close> and \<open>sellAt\<close>.\<close>

record Leg =
  leg_exchange :: string
  leg_price :: number

record BuyInfo =
  buy_canWithdraw :: bool
  buy_withdrawNetworks :: "string list option"

record SellInfo =
  sell_canDeposit :: bool
  sell_depositNetworks :: "string list option"

record AssetPair =
  on_buyExchange :: any
  on_sellExchange :: any

record AssetDetails =
  baseAsset :: AssetPair
  quoteAsset :: AssetPair

record Validation =
  isExecutable :: bool
  commonNetworks :: "string list"
  buyExchange :: BuyInfo
  sellExchange :: SellInfo
  assetDetails :: AssetDetails

record Opportunity =
  pair :: string
  profitPercentage :: number
  buyAt :: Leg
  sellAt :: Leg
  validation :: "Validation option"

text \<open>
  An \<open>async\<close> call either resolves with a value or rejects (throws). The repository
  of an exchange is the three calls of \<open>IExchangeRepository\<close>, each a function of its
  argument: one run sees one snapshot of every source. \<open>getAssetStatus\<close> takes an
  optional string because the validator passes \<open>undefined\<close> when the pair has no
  \<open>/\<close>.
\<close>

datatype 'a promise = Resolved 'a | Rejected

record IExchangeRepository =
  fetchAllPairs :: "StandardPair list promise"
  fetchTicker :: "StandardPair \<Rightarrow> StandardTicker option promise"
  getAssetStatus :: "string option \<Rightarrow> AssetStatus option promise"

type_synonym repositories = "(ExchangeName, IExchangeRepository) js_map"

text \<open>\<open>Promise.all\<close>: resolves with all values in order, rejects when any member rejects.\<close>

fun promise_all :: "'a promise list \<Rightarrow> 'a list promise" where
  "promise_all [] = Resolved []"
| "promise_all (Rejected # ps) = Rejected"
| "promise_all (Resolved x # ps) =
     (case promise_all ps of Rejected \<Rightarrow> Rejected | Resolved xs \<Rightarrow> Resolved (x # xs))"

section \<open>Double arithmetic\<close>

text \<open>
  Rounding a real number to the nearest double, ties to the even significand. The
  exponent \<open>ilog2 x\<close> of a positive \<open>x\<close> is the \<open>e\<close> with \<open>2^e \<le> x < 2^(e+1)\<close>,
  found by halving or doubling; doubles have 53 significant bits, so the spacing of the
  doubles around \<open>x\<close> is \<open>2^(e - 52)\<close>, and \<open>2^(-1074)\<close> for the subnormal
  numbers; a result of magnitude \<open>2^1024\<close> or more overflows to an infinity.
\<close>

definition round_even :: "real \<Rightarrow> int" where
  "round_even y =
     (let f = \<lfloor>y\<rfloor>
      in if y - of_int f < 1 / 2 then f
         else if y - of_int f > 1 / 2 then f + 1
         else if even f then f else f + 1)"

function log2_up :: "real \<Rightarrow> int" where
  "log2_up x = (if x < 2 then 0 else 1 + log2_up (x / 2))"
  by pat_completeness auto
termination
proof (relation "measure (\<lambda>x. nat \<lfloor>x\<rfloor>)")
  show "wf (measure (\<lambda>x. nat \<lfloor>x\<rfloor>))"
    by simp
next
  fix x :: real
  assume "\<not> x < 2"
  then have "x / 2 \<le> x - 1"
    by simp
  then have "\<lfloor>x / 2\<rfloor> \<le> \<lfloor>x - 1\<rfloor>"
    by (rule floor_mono)
  moreover have "0 < \<lfloor>x\<rfloor>"
    using \<open>\<not> x < 2\<close> by simp
  ultimately show "(x / 2, x) \<in> measure (\<lambda>x. nat \<lfloor>x\<rfloor>)"
    by simp
qed

declare log2_up.simps [simp del]

function log2_down :: "real \<Rightarrow> int" where
  "log2_down x = (if x \<le> 0 \<or> 1 \<le> x then 0 else log2_down (2 * x) - 1)"
  by pat_completeness auto
termination
proof (relation "measure (\<lambda>x. nat \<lceil>1 / x\<rceil>)")
  show "wf (measure (\<lambda>x. nat \<lceil>1 / x\<rceil>))"
    by simp
next
  fix x :: real
  assume "\<not> (x \<le> 0 \<or> 1 \<le> x)"
  then have x: "0 < x" "x < 1"
    by simp_all
  then have "1 < 1 / x"
    by simp
  then have c: "2 \<le> \<lceil>1 / x\<rceil>"
    by (simp add: le_ceiling_iff)
  have "1 / (2 * x) = (1 / x) / 2"
    by simp
  also have "\<dots> \<le> of_int \<lceil>1 / x\<rceil> / 2"
    by (simp add: divide_right_mono)
  also have "\<dots> \<le> of_int (\<lceil>1 / x\<rceil> - 1)"
    using c by simp
  finally have "1 / (2 * x) \<le> of_int (\<lceil>1 / x\<rceil> - 1)" .
  then have "\<lceil>1 / (2 * x)\<rceil> \<le> \<lceil>1 / x\<rceil> - 1"
    by (rule ceiling_le)
  then have "nat \<lceil>1 / (2 * x)\<rceil> < nat \<lceil>1 / x\<rceil>"
    using c by linarith
  then show "(2 * x, x) \<in> measure (\<lambda>x. nat \<lceil>1 / x\<rceil>)"
    by simp
qed

declare log2_down.simps [simp del]

definition ilog2 :: "real \<Rightarrow> int" where
  "ilog2 x = (if 1 \<le> x then log2_up x else log2_down x)"

definition pow2 :: "int \<Rightarrow> real" where
  "pow2 e = (if 0 \<le> e then 2 ^ nat e else 1 / 2 ^ nat (- e))"

definition fl :: "real \<Rightarrow> number" where
  "fl x =
     (if x = 0 then Finite 0
      else
        (let q = max (ilog2 \<bar>x\<bar> - 52) (- 1074);
             r = of_int (round_even (x / pow2 q)) * pow2 q
         in if 2 ^ 1024 \<le> \<bar>r\<bar> then (if 0 < x then PosInf else NegInf) else Finite r))"

text \<open>
  The operators \<open>-\<close>, \<open>/\<close> and \<open>*\<close> on doubles: the exact result, rounded; the
  special values as IEEE 754 has them. A quotient by zero takes the zero as positive.
\<close>

fun js_sub :: "number \<Rightarrow> number \<Rightarrow> number" where
  "js_sub (Finite x) (Finite y) = fl (x - y)"
| "js_sub NaN b = NaN"
| "js_sub a NaN = NaN"
| "js_sub PosInf PosInf = NaN"
| "js_sub NegInf NegInf = NaN"
| "js_sub PosInf b = PosInf"
| "js_sub NegInf b = NegInf"
| "js_sub (Finite x) PosInf = NegInf"
| "js_sub (Finite x) NegInf = PosInf"

fun js_div :: "number \<Rightarrow> number \<Rightarrow> number" where
  "js_div (Finite x) (Finite y) =
     (if y = 0 then (if x = 0 then NaN else if 0 < x then PosInf else NegInf)
      else fl (x / y))"
| "js_div NaN b = NaN"
| "js_div a NaN = NaN"
| "js_div (Finite x) b = Finite 0"
| "js_div PosInf (Finite y) = (if 0 \<le> y then PosInf else NegInf)"
| "js_div NegInf (Finite y) = (if 0 \<le> y then NegInf else PosInf)"
| "js_div a b = NaN"

fun js_mul :: "number \<Rightarrow> number \<Rightarrow> number" where
  "js_mul (Finite x) (Finite y) = fl (x * y)"
| "js_mul NaN b = NaN"
| "js_mul a NaN = NaN"
| "js_mul PosInf (Finite y) = (if y = 0 then NaN else if 0 < y then PosInf else NegInf)"
| "js_mul NegInf (Finite y) = (if y = 0 then NaN else if 0 < y then NegInf else PosInf)"
| "js_mul (Finite x) PosInf = (if x = 0 then NaN else if 0 < x then PosInf else NegInf)"
| "js_mul (Finite x) NegInf = (if x = 0 then NaN else if 0 < x then NegInf else PosInf)"
| "js_mul PosInf PosInf = PosInf"
| "js_mul NegInf NegInf = PosInf"
| "js_mul a b = NegInf"

text \<open>The comparisons \<open>>\<close> and \<open>>=\<close>: exact, and false when an operand is NaN.\<close>

fun js_gt :: "number \<Rightarrow> number \<Rightarrow> bool" where
  "js_gt (Finite x) (Finite y) = (y < x)"
| "js_gt NaN b = False"
| "js_gt a NaN = False"
| "js_gt PosInf PosInf = False"
| "js_gt PosInf b = True"
| "js_gt a NegInf = (a \<noteq> NegInf)"
| "js_gt a b = False"

fun js_ge :: "number \<Rightarrow> number \<Rightarrow> bool" where
  "js_ge (Finite x) (Finite y) = (y \<le> x)"
| "js_ge NaN b = False"
| "js_ge a NaN = False"
| "js_ge PosInf b = True"
| "js_ge a NegInf = True"
| "js_ge a b = False"

section \<open>Spread detection (\<open>_findOpportunitiesInSinglePair\<close>)\<close>

text \<open>
  \<open>parseFloat(x.toFixed(4))\<close>. For a finite \<open>x\<close> below \<open>10^21\<close> in magnitude,
  \<open>toFixed\<close> prints the integer \<open>n\<close> with \<open>n / 10^4\<close> closest to the value of \<open>x\<close>,
  the larger one on a tie, after taking the sign off a negative \<open>x\<close>, and \<open>parseFloat\<close>
  reads the decimal back as the nearest double. From \<open>10^21\<close> on, and for the infinities
  and NaN, \<open>toFixed\<close> prints the number as \<open>toString\<close> does, and \<open>parseFloat\<close> reads the
  same number back.
\<close>

definition toFixed4 :: "number \<Rightarrow> number" where
  "toFixed4 v =
     (case v of
        Finite x \<Rightarrow>
          if 10 ^ 21 \<le> \<bar>x\<bar> then Finite x
          else if x < 0 then fl (- (of_int \<lfloor>(- x) * 10000 + 1 / 2\<rfloor> / 10000))
          else fl (of_int \<lfloor>x * 10000 + 1 / 2\<rfloor> / 10000)
      | PosInf \<Rightarrow> PosInf
      | NegInf \<Rightarrow> NegInf
      | NaN \<Rightarrow> NaN)"

definition grossProfitPercentage :: "StandardTicker \<Rightarrow> StandardTicker \<Rightarrow> number" where
  "grossProfitPercentage buyTicker sellTicker =
     js_mul (js_div (js_sub (bid sellTicker) (ask buyTicker)) (ask buyTicker)) (Finite 100)"

text \<open>
  The body of the inner loop at indices \<open>i\<close>, \<open>j\<close>: the value of \<open>opportunities\<close>
  after the iteration.
\<close>

definition pair_step ::
  "ArbitrageConfig \<Rightarrow> string \<Rightarrow> (ExchangeName \<times> StandardTicker) list \<Rightarrow> nat \<Rightarrow> nat \<Rightarrow>
     Opportunity list \<Rightarrow> Opportunity list" where
  "pair_step cfg smb ts i j opportunities =
     (if i = j then opportunities
      else
        (case (ts ! i, ts ! j) of
           ((buyExch, buyTicker), (sellExch, sellTicker)) \<Rightarrow>
             if js_gt (ask buyTicker) (Finite 0) \<and> js_gt (bid sellTicker) (ask buyTicker) then
               if js_ge (grossProfitPercentage buyTicker sellTicker) (minProfitPercentage cfg) then
                 opportunities @
                   [\<lparr>pair = smb,
                     profitPercentage = toFixed4 (grossProfitPercentage buyTicker sellTicker),
                     buyAt = \<lparr>leg_exchange = buyExch, leg_price = ask buyTicker\<rparr>,
                     sellAt = \<lparr>leg_exchange = sellExch, leg_price = bid sellTicker\<rparr>,
                     validation = None\<rparr>]
               else opportunities
             else opportunities))"

function inner_loop ::
  "ArbitrageConfig \<Rightarrow> string \<Rightarrow> (ExchangeName \<times> StandardTicker) list \<Rightarrow> nat \<Rightarrow> nat \<Rightarrow>
     Opportunity list \<Rightarrow> Opportunity list" where
  "inner_loop cfg smb ts i j opportunities =
     (if j < length ts
      then inner_loop cfg smb ts i (j + 1) (pair_step cfg smb ts i j opportunities)
      else opportunities)"
  by pat_completeness auto
termination
  by (relation "measure (\<lambda>(cfg, smb, ts, i, j, opportunities). length ts - j)") auto

declare inner_loop.simps [simp del]

function outer_loop ::
  "ArbitrageConfig \<Rightarrow> string \<Rightarrow> (ExchangeName \<times> StandardTicker) list \<Rightarrow> nat \<Rightarrow>
     Opportunity list \<Rightarrow> Opportunity list" where
  "outer_loop cfg smb ts i opportunities =
     (if i < length ts
      then outer_loop cfg smb ts (i + 1) (inner_loop cfg smb ts i 0 opportunities)
      else opportunities)"
  by pat_completeness auto
termination
  by (relation "measure (\<lambda>(cfg, smb, ts, i, opportunities). length ts - i)") auto

declare outer_loop.simps [simp del]

definition findOpportunitiesInSinglePair ::
  "ArbitrageConfig \<Rightarrow> EnrichedPair \<Rightarrow> Opportunity list" where
  "findOpportunitiesInSinglePair cfg enrichedPair =
     (if length (tickers enrichedPair) < 2 then []
      else outer_loop cfg (sp_symbol enrichedPair) (tickers enrichedPair) 0 [])"

section \<open>Pair resolution (\<open>findSharedPairs\<close>)\<close>

definition filterActive :: "ArbitrageConfig \<Rightarrow> bool" where
  "filterActive cfg =
     (case quoteAssetsFilter cfg of None \<Rightarrow> False | Some f \<Rightarrow> length f > 0)"

text \<open>\<open>Array.prototype.includes\<close> on an array of strings.\<close>

definition js_includes :: "string list \<Rightarrow> string \<Rightarrow> bool" where
  "js_includes xs x = (x \<in> set xs)"

text \<open>
  The body of the inner \<open>for\<close> loop for one pair of the exchange \<open>nm\<close>: the new
  \<open>pairMap\<close>. The array stored under the symbol is extended in place, so the entry
  keeps its position. The last branch (\<open>get\<close> after \<open>set\<close> finds nothing) cannot be
  taken.
\<close>

definition add_pair ::
  "ArbitrageConfig \<Rightarrow> ExchangeName \<Rightarrow> (string, Member list) js_map \<Rightarrow> StandardPair \<Rightarrow>
     (string, Member list) js_map" where
  "add_pair cfg nm pairMap p =
     (if filterActive cfg \<and>
         \<not> js_includes (case quoteAssetsFilter cfg of Some f \<Rightarrow> f | None \<Rightarrow> []) (quote p)
      then pairMap
      else
        (let pairMap' =
               (if \<not> map_has pairMap (symbol p) then map_set (symbol p) [] pairMap
                else pairMap)
         in case map_get pairMap' (symbol p) of
              Some members \<Rightarrow>
                map_set (symbol p) (members @ [\<lparr>member_name = nm, pairData = p\<rparr>]) pairMap'
            | None \<Rightarrow> pairMap'))"

definition add_exchange ::
  "ArbitrageConfig \<Rightarrow> (string, Member list) js_map \<Rightarrow> ExchangeData \<Rightarrow>
     (string, Member list) js_map" where
  "add_exchange cfg pairMap exchange' =
     foldl (add_pair cfg (name exchange')) pairMap (pairs exchange')"

definition build_pairMap ::
  "ArbitrageConfig \<Rightarrow> ExchangeData list \<Rightarrow> (string, Member list) js_map" where
  "build_pairMap cfg exchangeData = foldl (add_exchange cfg) [] exchangeData"

definition findSharedPairs :: "ArbitrageConfig \<Rightarrow> ExchangeData list \<Rightarrow> SharedPairInfo list" where
  "findSharedPairs cfg exchangeData =
     map (\<lambda>(smb, exs). \<lparr>sp_symbol = smb, exchanges = exs\<rparr>)
       (filter (\<lambda>(smb, exs). length exs \<ge> 2) (build_pairMap cfg exchangeData))"

section \<open>Quote enrichment (\<open>_enrichSinglePairWithTickers\<close>)\<close>

text \<open>
  \<open>this.exchangeRepositories.get(ex.name)!.fetchTicker(ex.pairData)\<close>: a name with no
  repository makes the call throw a TypeError inside the \<open>try\<close> block, which ends in
  the same \<open>catch\<close> as a rejected request.
\<close>

definition call_fetchTicker :: "repositories \<Rightarrow> Member \<Rightarrow> StandardTicker option promise" where
  "call_fetchTicker repos ex =
     (case map_get repos (member_name ex) of
        None \<Rightarrow> Rejected
      | Some repo \<Rightarrow> fetchTicker repo (pairData ex))"

text \<open>
  The callback of \<open>results.forEach((ticker, index) => ...)\<close>, as a function of the map
  built so far, and the \<open>forEach\<close> itself, from an empty \<open>validTickers\<close>.
\<close>

definition put_ticker ::
  "Member list \<Rightarrow> (ExchangeName, StandardTicker) js_map \<Rightarrow> nat \<times> StandardTicker option \<Rightarrow>
     (ExchangeName, StandardTicker) js_map" where
  "put_ticker exs validTickers it =
     (case it of (index, ticker) \<Rightarrow>
        (case ticker of
           None \<Rightarrow> validTickers
         | Some t \<Rightarrow> map_set (member_name (exs ! index)) t validTickers))"

definition collect_valid ::
  "Member list \<Rightarrow> StandardTicker option list \<Rightarrow> (ExchangeName, StandardTicker) js_map" where
  "collect_valid exs results = foldl (put_ticker exs) [] (enumerate 0 results)"

definition enrichSinglePairWithTickers ::
  "repositories \<Rightarrow> SharedPairInfo \<Rightarrow> EnrichedPair option" where
  "enrichSinglePairWithTickers repos sharedPair =
     (case promise_all (map (call_fetchTicker repos) (exchanges sharedPair)) of
        Rejected \<Rightarrow> None
      | Resolved results \<Rightarrow>
          (let validTickers = collect_valid (exchanges sharedPair) results
           in if length validTickers \<ge> 2
              then Some \<lparr>sp_symbol = sp_symbol sharedPair, exchanges = exchanges sharedPair,
                          tickers = validTickers\<rparr>
              else None))"

section \<open>Executability validation (\<open>_validateSingleOpportunity\<close>)\<close>

text \<open>\<open>String.prototype.split\<close> on a one-character separator: never empty.\<close>

fun js_split :: "char \<Rightarrow> string \<Rightarrow> string list" where
  "js_split c [] = [[]]"
| "js_split c (x # xs) =
     (if x = c then [] # js_split c xs
      else (case js_split c xs of
              w # ws \<Rightarrow> (x # w) # ws
            | [] \<Rightarrow> [[x]]))"

text \<open>Reading an array element: \<open>undefined\<close> past the end.\<close>

definition at_index :: "'a list \<Rightarrow> nat \<Rightarrow> 'a option" where
  "at_index xs i = (if i < length xs then Some (xs ! i) else None)"

text \<open>\<open>status?.assetInfo || null\<close>: \<open>null\<close> when there is no status or the payload is falsy.\<close>

definition assetInfo_or_null :: "AssetStatus option \<Rightarrow> any" where
  "assetInfo_or_null st =
     (case st of
        None \<Rightarrow> JNull
      | Some s \<Rightarrow> if truthy (assetInfo s) then assetInfo s else JNull)"

definition attach_validation ::
  "Opportunity \<Rightarrow> AssetStatus option \<Rightarrow> AssetStatus option \<Rightarrow> AssetStatus option \<Rightarrow>
     AssetStatus option \<Rightarrow> Opportunity" where
  "attach_validation opportunity buyBaseStatus buyQuoteStatus sellBaseStatus sellQuoteStatus =
     (let canWithdrawFromBuyExchange =
            (case buyBaseStatus of None \<Rightarrow> False | Some s \<Rightarrow> canWithdraw s);
          canDepositOnSellExchange =
            (case sellBaseStatus of None \<Rightarrow> False | Some s \<Rightarrow> canDeposit s);
          commonNetworks' =
            filter
              (\<lambda>net. js_includes
                 (case sellBaseStatus of None \<Rightarrow> [] | Some s \<Rightarrow> depositNetworks s) net)
              (case buyBaseStatus of None \<Rightarrow> [] | Some s \<Rightarrow> withdrawNetworks s);
          isPathExecutable =
            (canWithdrawFromBuyExchange \<and> canDepositOnSellExchange \<and>
             length commonNetworks' > 0)
      in opportunity
           \<lparr>validation := Some
              \<lparr>isExecutable = isPathExecutable,
               commonNetworks = commonNetworks',
               buyExchange =
                 \<lparr>buy_canWithdraw = canWithdrawFromBuyExchange,
                  buy_withdrawNetworks = map_option withdrawNetworks buyBaseStatus\<rparr>,
               sellExchange =
                 \<lparr>sell_canDeposit = canDepositOnSellExchange,
                  sell_depositNetworks = map_option depositNetworks sellBaseStatus\<rparr>,
               assetDetails =
                 \<lparr>baseAsset =
                    \<lparr>on_buyExchange = assetInfo_or_null buyBaseStatus,
                     on_sellExchange = assetInfo_or_null sellBaseStatus\<rparr>,
                  quoteAsset =
                    \<lparr>on_buyExchange = assetInfo_or_null buyQuoteStatus,
                     on_sellExchange = assetInfo_or_null sellQuoteStatus\<rparr>\<rparr>\<rparr>\<rparr>)"

text \<open>
  \<open>repository.getAssetStatus(asset)\<close> on what \<open>exchangeRepositories.get(name)!\<close> returned:
  when no repository is registered under the name, the call is made on \<open>undefined\<close> and
  throws a TypeError inside the \<open>try\<close> block, which ends in the same \<open>catch\<close> as a
  rejected lookup.
\<close>

definition call_getAssetStatus ::
  "IExchangeRepository option \<Rightarrow> string option \<Rightarrow> AssetStatus option promise" where
  "call_getAssetStatus repository asset =
     (case repository of
        None \<Rightarrow> Rejected
      | Some repo \<Rightarrow> getAssetStatus repo asset)"

text \<open>
  The four lookups are issued together and awaited with \<open>Promise.all\<close>; any rejection or
  throw ends in \<open>catch { return null }\<close>.
\<close>

definition validateSingleOpportunity :: "repositories \<Rightarrow> Opportunity \<Rightarrow> Opportunity option" where
  "validateSingleOpportunity repos opportunity =
     (let parts = js_split CHR ''/'' (pair opportunity);
          baseAsset' = at_index parts 0;
          quoteAsset' = at_index parts 1;
          buyRepository = map_get repos (leg_exchange (buyAt opportunity));
          sellRepository = map_get repos (leg_exchange (sellAt opportunity))
      in case promise_all
                [call_getAssetStatus buyRepository baseAsset',
                 call_getAssetStatus buyRepository quoteAsset',
                 call_getAssetStatus sellRepository baseAsset',
                 call_getAssetStatus sellRepository quoteAsset'] of
           Resolved [buyBaseStatus, buyQuoteStatus, sellBaseStatus, sellQuoteStatus] \<Rightarrow>
             Some (attach_validation opportunity
                     buyBaseStatus buyQuoteStatus sellBaseStatus sellQuoteStatus)
         | _ \<Rightarrow> None)"

section \<open>Pipeline (\<open>streamOpportunities\<close>)\<close>

text \<open>
  What a run of the generator does, consumed to its end, as the list of its effects in
  order: the progress line, each yielded opportunity, each \<open>delay(ms)\<close>, and the final
  writes. The standard output is taken to be a terminal; on any other stream
  \<open>process.stdout.clearLine\<close> is undefined and the call throws, after every yield and
  delay of the run.
\<close>

datatype event =
    Progress string nat nat
  | Yield Opportunity
  | Delay nat
  | ClearLine
  | CursorTo nat
  | Completed nat

definition validate_each :: "repositories \<Rightarrow> Opportunity list \<Rightarrow> event list" where
  "validate_each repos priceOpportunities =
     concat (map (\<lambda>priceOpp.
                    case validateSingleOpportunity repos priceOpp of
                      None \<Rightarrow> []
                    | Some validatedOpp \<Rightarrow> [Yield validatedOpp])
              priceOpportunities)"

text \<open>The loop body after the progress line; each \<open>continue\<close> leaves it early.\<close>

definition group_step :: "repositories \<Rightarrow> ArbitrageConfig \<Rightarrow> SharedPairInfo \<Rightarrow> event list" where
  "group_step repos cfg sharedPair =
     (case enrichSinglePairWithTickers repos sharedPair of
        None \<Rightarrow> []
      | Some enrichedPair \<Rightarrow>
          (let priceOpportunities = findOpportunitiesInSinglePair cfg enrichedPair
           in if length priceOpportunities = 0 then []
              else validate_each repos priceOpportunities @ [Delay 30]))"

function stream_loop ::
  "repositories \<Rightarrow> ArbitrageConfig \<Rightarrow> SharedPairInfo list \<Rightarrow> nat \<Rightarrow> event list" where
  "stream_loop repos cfg sharedPairs i =
     (if i < length sharedPairs
      then Progress (sp_symbol (sharedPairs ! i)) (i + 1) (length sharedPairs) #
             group_step repos cfg (sharedPairs ! i) @
             stream_loop repos cfg sharedPairs (i + 1)
      else [])"
  by pat_completeness auto
termination
  by (relation "measure (\<lambda>(repos, cfg, sharedPairs, i). length sharedPairs - i)") auto

declare stream_loop.simps [simp del]

definition streamOpportunities ::
  "repositories \<Rightarrow> ArbitrageConfig \<Rightarrow> SharedPairInfo list \<Rightarrow> event list" where
  "streamOpportunities repos cfg sharedPairs =
     stream_loop repos cfg sharedPairs 0 @
       [ClearLine, CursorTo 0, Completed (length sharedPairs)]"

section \<open>Notions used to state the properties\<close>

text \<open>
  The spread of an opportunity as the code computes it, in double arithmetic, from the
  two stored prices.
\<close>

definition spread :: "Opportunity \<Rightarrow> number" where
  "spread opp =
     js_mul (js_div (js_sub (leg_price (sellAt opp)) (leg_price (buyAt opp)))
               (leg_price (buyAt opp)))
       (Finite 100)"

text \<open>The index pairs \<open>(i, j)\<close> below \<open>n\<close>, \<open>i\<close> outermost, both ascending.\<close>

definition enumeration :: "nat \<Rightarrow> (nat \<times> nat) list" where
  "enumeration n = concat (map (\<lambda>i. map (\<lambda>j. (i, j)) [0..<n]) [0..<n])"

text \<open>The record pushed for a buy entry and a sell entry of the ticker map.\<close>

definition candidate ::
  "ArbitrageConfig \<Rightarrow> string \<Rightarrow> ExchangeName \<times> StandardTicker \<Rightarrow>
     ExchangeName \<times> StandardTicker \<Rightarrow> Opportunity" where
  "candidate cfg smb buy sell =
     \<lparr>pair = smb,
      profitPercentage = toFixed4 (grossProfitPercentage (snd buy) (snd sell)),
      buyAt = \<lparr>leg_exchange = fst buy, leg_price = ask (snd buy)\<rparr>,
      sellAt = \<lparr>leg_exchange = fst sell, leg_price = bid (snd sell)\<rparr>,
      validation = None\<rparr>"

text \<open>The two guards of the loop body, together.\<close>

definition fires :: "ArbitrageConfig \<Rightarrow> StandardTicker \<Rightarrow> StandardTicker \<Rightarrow> bool" where
  "fires cfg buyTicker sellTicker =
     (js_gt (ask buyTicker) (Finite 0) \<and> js_gt (bid sellTicker) (ask buyTicker) \<and>
      js_ge (grossProfitPercentage buyTicker sellTicker) (minProfitPercentage cfg))"

text \<open>The opportunities a trace yields, in order.\<close>

definition yields :: "event list \<Rightarrow> Opportunity list" where
  "yields tr = concat (map (\<lambda>e. case e of Yield opp \<Rightarrow> [opp] | _ \<Rightarrow> []) tr)"

text \<open>The price candidates of a group: none when the group is not enriched.\<close>

definition candidates ::
  "repositories \<Rightarrow> ArbitrageConfig \<Rightarrow> SharedPairInfo \<Rightarrow> Opportunity list" where
  "candidates repos cfg g =
     (case enrichSinglePairWithTickers repos g of
        None \<Rightarrow> []
      | Some ep \<Rightarrow> findOpportunitiesInSinglePair cfg ep)"

text \<open>The candidates the validator returns, in the order given.\<close>

definition validated :: "repositories \<Rightarrow> Opportunity list \<Rightarrow> Opportunity list" where
  "validated repos opps =
     concat (map (\<lambda>opp. case validateSingleOpportunity repos opp of
                           None \<Rightarrow> [] | Some v \<Rightarrow> [v]) opps)"

text \<open>The two base-asset lookups of the validator, and the defaults it reads from them.\<close>

definition baseAsset_of :: "Opportunity \<Rightarrow> string option" where
  "baseAsset_of opp = at_index (js_split CHR ''/'' (pair opp)) 0"

definition quoteAsset_of :: "Opportunity \<Rightarrow> string option" where
  "quoteAsset_of opp = at_index (js_split CHR ''/'' (pair opp)) 1"

definition status_lookups :: "repositories \<Rightarrow> Opportunity \<Rightarrow> AssetStatus option promise list" where
  "status_lookups repos opp =
     [call_getAssetStatus (map_get repos (leg_exchange (buyAt opp))) (baseAsset_of opp),
      call_getAssetStatus (map_get repos (leg_exchange (buyAt opp))) (quoteAsset_of opp),
      call_getAssetStatus (map_get repos (leg_exchange (sellAt opp))) (baseAsset_of opp),
      call_getAssetStatus (map_get repos (leg_exchange (sellAt opp))) (quoteAsset_of opp)]"

definition withdraw_of :: "AssetStatus option \<Rightarrow> string list" where
  "withdraw_of st = (case st of None \<Rightarrow> [] | Some s \<Rightarrow> withdrawNetworks s)"

definition deposit_of :: "AssetStatus option \<Rightarrow> string list" where
  "deposit_of st = (case st of None \<Rightarrow> [] | Some s \<Rightarrow> depositNetworks s)"

definition can_withdraw_of :: "AssetStatus option \<Rightarrow> bool" where
  "can_withdraw_of st = (case st of None \<Rightarrow> False | Some s \<Rightarrow> canWithdraw s)"

definition can_deposit_of :: "AssetStatus option \<Rightarrow> bool" where
  "can_deposit_of st = (case st of None \<Rightarrow> False | Some s \<Rightarrow> canDeposit s)"

text \<open>
  The usable tickers of a group: for each member in order whose request resolves with a
  ticker, the member's source name and that ticker.
\<close>

definition usable_tickers ::
  "repositories \<Rightarrow> Member list \<Rightarrow> (ExchangeName \<times> StandardTicker) list" where
  "usable_tickers repos exs =
     concat (map (\<lambda>ex. case call_fetchTicker repos ex of
                          Resolved (Some t) \<Rightarrow> [(member_name ex, t)]
                        | _ \<Rightarrow> []) exs)"

text \<open>The delays of a trace, in order, in milliseconds.\<close>

definition delays :: "event list \<Rightarrow> nat list" where
  "delays tr = concat (map (\<lambda>e. case e of Delay ms \<Rightarrow> [ms] | _ \<Rightarrow> []) tr)"

text \<open>The order of index pairs: by \<open>i\<close>, then by \<open>j\<close>.\<close>

definition before :: "nat \<times> nat \<Rightarrow> nat \<times> nat \<Rightarrow> bool" where
  "before p q = (fst p < fst q \<or> (fst p = fst q \<and> snd p < snd q))"

text \<open>
  The pair resolver in the words of the specification. A pair is kept when no filter is
  active or its quote asset is in the filter; the listings are the kept pairs of every
  source, each with its source name, in input order; the symbols are taken in the order
  they are first seen; the members of a symbol are its listings, in order; one group is
  emitted for each symbol with at least 2 members.
\<close>

definition kept :: "ArbitrageConfig \<Rightarrow> StandardPair \<Rightarrow> bool" where
  "kept cfg p =
     (case quoteAssetsFilter cfg of
        None \<Rightarrow> True
      | Some f \<Rightarrow> f = [] \<or> quote p \<in> set f)"

definition listings :: "ArbitrageConfig \<Rightarrow> ExchangeData list \<Rightarrow> Member list" where
  "listings cfg exchangeData =
     concat (map (\<lambda>e. map (\<lambda>p. \<lparr>member_name = name e, pairData = p\<rparr>)
                         (filter (kept cfg) (pairs e)))
               exchangeData)"

definition all_listings :: "ExchangeData list \<Rightarrow> Member list" where
  "all_listings exchangeData =
     concat (map (\<lambda>e. map (\<lambda>p. \<lparr>member_name = name e, pairData = p\<rparr>) (pairs e))
               exchangeData)"

definition first_seen :: "'a list \<Rightarrow> 'a list" where
  "first_seen xs = rev (remdups (rev xs))"

definition member_symbol :: "Member \<Rightarrow> string" where
  "member_symbol m = symbol (pairData m)"

definition members_of :: "string \<Rightarrow> Member list \<Rightarrow> Member list" where
  "members_of smb ms = filter (\<lambda>m. member_symbol m = smb) ms"

definition grouped :: "Member list \<Rightarrow> (string, Member list) js_map" where
  "grouped ms = map (\<lambda>smb. (smb, members_of smb ms)) (first_seen (map member_symbol ms))"

definition shared_groups :: "Member list \<Rightarrow> SharedPairInfo list" where
  "shared_groups ms =
     map (\<lambda>smb. \<lparr>sp_symbol = smb, exchanges = members_of smb ms\<rparr>)
       (filter (\<lambda>smb. 2 \<le> length (members_of smb ms)) (first_seen (map member_symbol ms)))"

text \<open>What the loop body of \<open>findSharedPairs\<close> does with a pair that passes the filter.\<close>

definition add_member :: "(string, Member list) js_map \<Rightarrow> Member \<Rightarrow> (string, Member list) js_map" where
  "add_member pairMap m =
     (let pairMap' =
            (if \<not> map_has pairMap (member_symbol m) then map_set (member_symbol m) [] pairMap
             else pairMap)
      in case map_get pairMap' (member_symbol m) of
           Some members \<Rightarrow> map_set (member_symbol m) (members @ [m]) pairMap'
         | None \<Rightarrow> pairMap')"

section \<open>Example inputs\<close>

text \<open>Scenario A of the specification, and a threshold off the four-decimal grid.\<close>

definition cfgA :: ArbitrageConfig where
  "cfgA = \<lparr>minProfitPercentage = Finite (1 / 2), quoteAssetsFilter = None\<rparr>"

definition tickerX :: StandardTicker where
  "tickerX = \<lparr>ticker_exchange = ''X'', price = Finite 100, bid = Finite (995 / 10), ask = Finite 100, ticker_raw = JNull\<rparr>"

definition tickerY :: StandardTicker where
  "tickerY = \<lparr>ticker_exchange = ''Y'', price = Finite 104, bid = Finite 103, ask = Finite 105, ticker_raw = JNull\<rparr>"


definition oppA :: Opportunity where
  "oppA = \<lparr>pair = ''AAA/USDT'', profitPercentage = Finite 3,
      buyAt = \<lparr>leg_exchange = ''X'', leg_price = Finite 100\<rparr>,
      sellAt = \<lparr>leg_exchange = ''Y'', leg_price = Finite 103\<rparr>, validation = None\<rparr>"






text \<open>
  Two opposite spreads at once, and two sources quoting the same price with a zero
  threshold.
\<close>

definition tickerU :: StandardTicker where
  "tickerU = \<lparr>ticker_exchange = ''X'', price = Finite 105, bid = Finite 110, ask = Finite 100, ticker_raw = JNull\<rparr>"

definition tickerV :: StandardTicker where
  "tickerV = \<lparr>ticker_exchange = ''Y'', price = Finite 105, bid = Finite 111, ask = Finite 101, ticker_raw = JNull\<rparr>"

definition enrichedB :: EnrichedPair where
  "enrichedB =
     \<lparr>sp_symbol = ''AAA/USDT'', exchanges = [], tickers = [(''X'', tickerU), (''Y'', tickerV)]\<rparr>"

definition oppXY :: Opportunity where
  "oppXY = \<lparr>pair = ''AAA/USDT'', profitPercentage = Finite 11,
      buyAt = \<lparr>leg_exchange = ''X'', leg_price = Finite 100\<rparr>,
      sellAt = \<lparr>leg_exchange = ''Y'', leg_price = Finite 111\<rparr>, validation = None\<rparr>"

definition oppYX :: Opportunity where
  "oppYX = \<lparr>pair = ''AAA/USDT'', profitPercentage = Finite (5016390739941969 / 2 ^ 49),
      buyAt = \<lparr>leg_exchange = ''Y'', leg_price = Finite 101\<rparr>,
      sellAt = \<lparr>leg_exchange = ''X'', leg_price = Finite 110\<rparr>, validation = None\<rparr>"

definition cfgZ :: ArbitrageConfig where
  "cfgZ = \<lparr>minProfitPercentage = Finite 0, quoteAssetsFilter = None\<rparr>"

definition tickerS :: StandardTicker where
  "tickerS = \<lparr>ticker_exchange = ''X'', price = Finite 100, bid = Finite 100, ask = Finite 100, ticker_raw = JNull\<rparr>"

definition tickerT :: StandardTicker where
  "tickerT = \<lparr>ticker_exchange = ''Y'', price = Finite 100, bid = Finite 100, ask = Finite 100, ticker_raw = JNull\<rparr>"

definition enrichedZ :: EnrichedPair where
  "enrichedZ =
     \<lparr>sp_symbol = ''AAA/USDT'', exchanges = [], tickers = [(''X'', tickerS), (''Y'', tickerT)]\<rparr>"

text \<open>
  Prices whose spread is not a double: buying at 100 and selling at 129 gives, in
  doubles, a spread just below 29; buying at 2000000 and selling at 2000007 gives a
  spread just below 0.00035.
\<close>

definition cfg29 :: ArbitrageConfig where
  "cfg29 = \<lparr>minProfitPercentage = Finite 29, quoteAssetsFilter = None\<rparr>"

definition ticker100 :: StandardTicker where
  "ticker100 =
     \<lparr>ticker_exchange = ''X'', price = Finite 100, bid = Finite 99, ask = Finite 100,
      ticker_raw = JNull\<rparr>"

definition ticker129 :: StandardTicker where
  "ticker129 =
     \<lparr>ticker_exchange = ''Y'', price = Finite 129, bid = Finite 129, ask = Finite 130,
      ticker_raw = JNull\<rparr>"

definition enriched29 :: EnrichedPair where
  "enriched29 =
     \<lparr>sp_symbol = ''AAA/USDT'', exchanges = [],
      tickers = [(''X'', ticker100), (''Y'', ticker129)]\<rparr>"

definition tickerM :: StandardTicker where
  "tickerM =
     \<lparr>ticker_exchange = ''X'', price = Finite 2000000, bid = Finite 1999999,
      ask = Finite 2000000, ticker_raw = JNull\<rparr>"

definition tickerM7 :: StandardTicker where
  "tickerM7 =
     \<lparr>ticker_exchange = ''Y'', price = Finite 2000007, bid = Finite 2000007,
      ask = Finite 2000008, ticker_raw = JNull\<rparr>"

definition enrichedM :: EnrichedPair where
  "enrichedM =
     \<lparr>sp_symbol = ''AAA/USDT'', exchanges = [],
      tickers = [(''X'', tickerM), (''Y'', tickerM7)]\<rparr>"

definition oppM :: Opportunity where
  "oppM = \<lparr>pair = ''AAA/USDT'', profitPercentage = Finite (5534023222112865 / 2 ^ 64),
      buyAt = \<lparr>leg_exchange = ''X'', leg_price = Finite 2000000\<rparr>,
      sellAt = \<lparr>leg_exchange = ''Y'', leg_price = Finite 2000007\<rparr>, validation = None\<rparr>"

text \<open>
  A small world of four sources. X and Y quote and report the asset AAA (scenario D of
  the specification: X withdraws over ERC20, Y accepts deposits over ERC20 and TRC20);
  Z rejects every request; N answers every request with \<open>null\<close>.
\<close>

definition pairAX :: StandardPair where
  "pairAX = \<lparr>symbol = ''AAA/USDT'', base = ''AAA'', quote = ''USDT'', exchange = ''X'', raw = JNull\<rparr>"

definition pairAY :: StandardPair where
  "pairAY = \<lparr>symbol = ''AAA/USDT'', base = ''AAA'', quote = ''USDT'', exchange = ''Y'', raw = JNull\<rparr>"

definition pairAZ :: StandardPair where
  "pairAZ = \<lparr>symbol = ''AAA/USDT'', base = ''AAA'', quote = ''USDT'', exchange = ''Z'', raw = JNull\<rparr>"

definition pairAN :: StandardPair where
  "pairAN = \<lparr>symbol = ''AAA/USDT'', base = ''AAA'', quote = ''USDT'', exchange = ''N'', raw = JNull\<rparr>"

definition statusX :: AssetStatus where
  "statusX = \<lparr>canDeposit = True, canWithdraw = True, depositNetworks = [''ERC20''],
      withdrawNetworks = [''ERC20''], assetInfo = JObj ''aaa on X''\<rparr>"

definition statusY :: AssetStatus where
  "statusY = \<lparr>canDeposit = True, canWithdraw = True, depositNetworks = [''ERC20'', ''TRC20''],
      withdrawNetworks = [''TRC20''], assetInfo = JObj ''aaa on Y''\<rparr>"

definition repoX :: IExchangeRepository where
  "repoX =
     \<lparr>fetchAllPairs = Resolved [pairAX],
      fetchTicker = (\<lambda>p. if symbol p = ''AAA/USDT'' then Resolved (Some tickerX) else Resolved None),
      getAssetStatus = (\<lambda>a. if a = Some ''AAA'' then Resolved (Some statusX) else Resolved None)\<rparr>"

definition repoY :: IExchangeRepository where
  "repoY =
     \<lparr>fetchAllPairs = Resolved [pairAY],
      fetchTicker = (\<lambda>p. if symbol p = ''AAA/USDT'' then Resolved (Some tickerY) else Resolved None),
      getAssetStatus = (\<lambda>a. if a = Some ''AAA'' then Resolved (Some statusY) else Resolved None)\<rparr>"

definition repoDown :: IExchangeRepository where
  "repoDown =
     \<lparr>fetchAllPairs = Rejected, fetchTicker = (\<lambda>p. Rejected), getAssetStatus = (\<lambda>a. Rejected)\<rparr>"

definition repoSoft :: IExchangeRepository where
  "repoSoft =
     \<lparr>fetchAllPairs = Resolved [], fetchTicker = (\<lambda>p. Resolved None),
      getAssetStatus = (\<lambda>a. Resolved None)\<rparr>"

definition repos1 :: repositories where
  "repos1 = [(''X'', repoX), (''Y'', repoY), (''Z'', repoDown), (''N'', repoSoft)]"

definition validA :: Opportunity where
  "validA = oppA\<lparr>validation := Some
     \<lparr>isExecutable = True,
      commonNetworks = [''ERC20''],
      buyExchange = \<lparr>buy_canWithdraw = True, buy_withdrawNetworks = Some [''ERC20'']\<rparr>,
      sellExchange = \<lparr>sell_canDeposit = True, sell_depositNetworks = Some [''ERC20'', ''TRC20'']\<rparr>,
      assetDetails =
        \<lparr>baseAsset = \<lparr>on_buyExchange = JObj ''aaa on X'', on_sellExchange = JObj ''aaa on Y''\<rparr>,
         quoteAsset = \<lparr>on_buyExchange = JNull, on_sellExchange = JNull\<rparr>\<rparr>\<rparr>\<rparr>"

definition oppXZ :: Opportunity where
  "oppXZ = oppA\<lparr>sellAt := \<lparr>leg_exchange = ''Z'', leg_price = Finite 103\<rparr>\<rparr>"

definition oppXN :: Opportunity where
  "oppXN = oppA\<lparr>sellAt := \<lparr>leg_exchange = ''N'', leg_price = Finite 103\<rparr>\<rparr>"

text \<open>Groups over the four sources, and a symbol BBB/USDT that nobody quotes.\<close>

definition memberX :: Member where
  "memberX = \<lparr>member_name = ''X'', pairData = pairAX\<rparr>"

definition memberY :: Member where
  "memberY = \<lparr>member_name = ''Y'', pairData = pairAY\<rparr>"

definition memberZ :: Member where
  "memberZ = \<lparr>member_name = ''Z'', pairData = pairAZ\<rparr>"

definition memberN :: Member where
  "memberN = \<lparr>member_name = ''N'', pairData = pairAN\<rparr>"

definition groupXY :: SharedPairInfo where
  "groupXY = \<lparr>sp_symbol = ''AAA/USDT'', exchanges = [memberX, memberY]\<rparr>"

definition groupXYN :: SharedPairInfo where
  "groupXYN = \<lparr>sp_symbol = ''AAA/USDT'', exchanges = [memberX, memberY, memberN]\<rparr>"

definition groupXYZ :: SharedPairInfo where
  "groupXYZ = \<lparr>sp_symbol = ''AAA/USDT'', exchanges = [memberX, memberY, memberZ]\<rparr>"

definition groupXN :: SharedPairInfo where
  "groupXN = \<lparr>sp_symbol = ''AAA/USDT'', exchanges = [memberX, memberN]\<rparr>"

definition enrichedXY :: EnrichedPair where
  "enrichedXY =
     \<lparr>sp_symbol = ''AAA/USDT'', exchanges = [memberX, memberY],
      tickers = [(''X'', tickerX), (''Y'', tickerY)]\<rparr>"

definition enrichedXYN :: EnrichedPair where
  "enrichedXYN =
     \<lparr>sp_symbol = ''AAA/USDT'', exchanges = [memberX, memberY, memberN],
      tickers = [(''X'', tickerX), (''Y'', tickerY)]\<rparr>"

definition pairBX :: StandardPair where
  "pairBX = \<lparr>symbol = ''BBB/USDT'', base = ''BBB'', quote = ''USDT'', exchange = ''X'', raw = JNull\<rparr>"

definition pairBY :: StandardPair where
  "pairBY = \<lparr>symbol = ''BBB/USDT'', base = ''BBB'', quote = ''USDT'', exchange = ''Y'', raw = JNull\<rparr>"

definition groupB :: SharedPairInfo where
  "groupB =
     \<lparr>sp_symbol = ''BBB/USDT'',
      exchanges = [\<lparr>member_name = ''X'', pairData = pairBX\<rparr>,
                   \<lparr>member_name = ''Y'', pairData = pairBY\<rparr>]\<rparr>"

text \<open>
  Scenario E of the specification: AAA/USDC and AAA/USDT both listed on X and on Y, with
  the filter USDT. And a source that lists AAA/USDT twice.
\<close>

definition pairCX :: StandardPair where
  "pairCX = \<lparr>symbol = ''AAA/USDC'', base = ''AAA'', quote = ''USDC'', exchange = ''X'', raw = JNull\<rparr>"

definition pairCY :: StandardPair where
  "pairCY = \<lparr>symbol = ''AAA/USDC'', base = ''AAA'', quote = ''USDC'', exchange = ''Y'', raw = JNull\<rparr>"

definition cfgE :: ArbitrageConfig where
  "cfgE = \<lparr>minProfitPercentage = Finite (1 / 2), quoteAssetsFilter = Some [''USDT'']\<rparr>"

definition dataE :: "ExchangeData list" where
  "dataE = [\<lparr>name = ''X'', pairs = [pairCX, pairAX]\<rparr>, \<lparr>name = ''Y'', pairs = [pairCY, pairAY]\<rparr>]"

definition groupC :: SharedPairInfo where
  "groupC =
     \<lparr>sp_symbol = ''AAA/USDC'',
      exchanges = [\<lparr>member_name = ''X'', pairData = pairCX\<rparr>,
                   \<lparr>member_name = ''Y'', pairData = pairCY\<rparr>]\<rparr>"

definition pairAX2 :: StandardPair where
  "pairAX2 =
     \<lparr>symbol = ''AAA/USDT'', base = ''AAA'', quote = ''USDT'', exchange = ''X'', raw = JObj ''second''\<rparr>"

definition dataDup :: "ExchangeData list" where
  "dataDup = [\<lparr>name = ''X'', pairs = [pairAX, pairAX2]\<rparr>]"

definition groupDup :: SharedPairInfo where
  "groupDup =
     \<lparr>sp_symbol = ''AAA/USDT'',
      exchanges = [\<lparr>member_name = ''X'', pairData = pairAX\<rparr>,
                   \<lparr>member_name = ''X'', pairData = pairAX2\<rparr>]\<rparr>"

section \<open>Lemmas about the model\<close>

subsection \<open>Maps in insertion order\<close>

lemma map_set_fresh: "k \<notin> fst ` set m \<Longrightarrow> map_set k v m = m @ [(k, v)]"
  by (induction m) auto

lemma map_fst_map_set_present: "k \<in> fst ` set m \<Longrightarrow> map fst (map_set k v m) = map fst m"
  by (induction m) force+

lemma map_fst_map_set:
  "map fst (map_set k v m) = (if k \<in> fst ` set m then map fst m else map fst m @ [k])"
  by (simp add: map_set_fresh map_fst_map_set_present)

lemma set_fst_map_set: "fst ` set (map_set k v m) = insert k (fst ` set m)"
proof -
  have "set (map fst (map_set k v m)) = insert k (set (map fst m))"
    unfolding map_fst_map_set by auto
  then show ?thesis by simp
qed

lemma distinct_map_set:
  "distinct (map fst m) \<Longrightarrow> distinct (map fst (map_set k v m))"
  unfolding map_fst_map_set by simp

lemma map_of_map_set: "map_of (map_set k v m) = (map_of m)(k \<mapsto> v)"
  by (induction m) (auto simp: fun_eq_iff)

lemma map_set_replace:
  assumes "k \<in> set ks" and "distinct ks"
  shows "map_set k v (map (\<lambda>s. (s, f s)) ks) = map (\<lambda>s. (s, if s = k then v else f s)) ks"
  using assms
proof (induction ks)
  case Nil
  then show ?case by simp
next
  case (Cons a ks)
  show ?case
  proof (cases "a = k")
    case True
    then have "k \<notin> set ks"
      using Cons.prems by simp
    then have "map (\<lambda>s. (s, f s)) ks = map (\<lambda>s. (s, if s = k then v else f s)) ks"
      by (intro map_cong) auto
    then show ?thesis
      using True by simp
  next
    case False
    then show ?thesis
      using Cons by simp
  qed
qed

lemma map_set_last:
  "k \<notin> fst ` set xs \<Longrightarrow> map_set k v (xs @ [(k, w)]) = xs @ [(k, v)]"
  by (induction xs) auto

lemma map_of_keyed:
  "map_of (map (\<lambda>s. (s, f s)) ks) k = (if k \<in> set ks then Some (f k) else None)"
  by (induction ks) auto

lemma fold_map_set_keys:
  "fst ` set (foldl (\<lambda>m kv. map_set (fst kv) (snd kv) m) m kvs) = fst ` set m \<union> fst ` set kvs"
  by (induction kvs arbitrary: m) (auto simp: set_fst_map_set)

lemma fold_map_set_distinct:
  "distinct (map fst m) \<Longrightarrow>
     distinct (map fst (foldl (\<lambda>m kv. map_set (fst kv) (snd kv) m) m kvs))"
  by (induction kvs arbitrary: m) (simp_all add: distinct_map_set)

lemma fold_map_set_fresh:
  "distinct (map fst kvs) \<Longrightarrow> fst ` set m \<inter> fst ` set kvs = {} \<Longrightarrow>
     foldl (\<lambda>m kv. map_set (fst kv) (snd kv) m) m kvs = m @ kvs"
proof (induction kvs arbitrary: m)
  case Nil
  then show ?case by simp
next
  case (Cons kv kvs)
  from Cons.prems have fresh: "fst kv \<notin> fst ` set m"
    by auto
  have step: "map_set (fst kv) (snd kv) m = m @ [kv]"
    using map_set_fresh [OF fresh, of "snd kv"] by simp
  have "fst ` set (m @ [kv]) \<inter> fst ` set kvs = {}"
    using Cons.prems by auto
  moreover have "distinct (map fst kvs)"
    using Cons.prems by simp
  ultimately show ?case
    using Cons.IH [of "m @ [kv]"] by (simp add: step)
qed

subsection \<open>Awaiting several requests\<close>

lemma promise_all_map_Resolved: "promise_all (map Resolved xs) = Resolved xs"
  by (induction xs) simp_all

lemma promise_all_Resolved_D: "promise_all ps = Resolved xs \<Longrightarrow> ps = map Resolved xs"
proof (induction ps arbitrary: xs)
  case Nil
  then show ?case by simp
next
  case (Cons p ps)
  show ?case
  proof (cases p)
    case (Resolved x)
    with Cons.prems obtain ys where "promise_all ps = Resolved ys" and "xs = x # ys"
      by (auto split: promise.splits)
    with Cons.IH Resolved show ?thesis by simp
  next
    case Rejected
    with Cons.prems show ?thesis by simp
  qed
qed

lemma promise_all_Resolved_iff:
  "promise_all ps = Resolved xs \<longleftrightarrow> ps = map Resolved xs"
  using promise_all_Resolved_D promise_all_map_Resolved by blast

lemma promise_all_Rejected_iff: "promise_all ps = Rejected \<longleftrightarrow> Rejected \<in> set ps"
proof (induction ps)
  case Nil
  then show ?case by simp
next
  case (Cons p ps)
  then show ?case
    by (cases p) (auto split: promise.splits)
qed

subsection \<open>The pair resolver in closed form\<close>

lemma first_seen_snoc:
  "first_seen (xs @ [x]) = (if x \<in> set xs then first_seen xs else first_seen xs @ [x])"
  by (simp add: first_seen_def)

lemma first_seen_Nil: "first_seen [] = []"
  by (simp add: first_seen_def)

lemma set_first_seen: "set (first_seen xs) = set xs"
  by (simp add: first_seen_def)

lemma distinct_first_seen: "distinct (first_seen xs)"
  by (simp add: first_seen_def)

lemma add_pair_eq:
  "add_pair cfg nm pairMap p =
     (if kept cfg p then add_member pairMap \<lparr>member_name = nm, pairData = p\<rparr> else pairMap)"
  by (auto simp: add_pair_def add_member_def kept_def filterActive_def js_includes_def
      member_symbol_def Let_def split: option.splits)

lemma fold_add_pair:
  "foldl (add_pair cfg nm) pairMap ps =
     foldl add_member pairMap (map (\<lambda>p. \<lparr>member_name = nm, pairData = p\<rparr>) (filter (kept cfg) ps))"
  by (induction ps arbitrary: pairMap) (simp_all add: add_pair_eq)

lemma fold_add_exchange:
  "foldl (add_exchange cfg) pairMap exchangeData =
     foldl add_member pairMap (listings cfg exchangeData)"
  by (induction exchangeData arbitrary: pairMap)
    (simp_all add: listings_def add_exchange_def fold_add_pair)

lemma build_pairMap_fold:
  "build_pairMap cfg exchangeData = foldl add_member [] (listings cfg exchangeData)"
  by (simp add: build_pairMap_def fold_add_exchange)

lemma add_member_grouped: "add_member (grouped ms) m = grouped (ms @ [m])"
proof (cases "member_symbol m \<in> set (map member_symbol ms)")
  case True
  let ?k = "member_symbol m"
  let ?ks = "first_seen (map member_symbol ms)"
  from True have k: "?k \<in> set ?ks"
    by (simp add: set_first_seen)
  have has: "map_has (grouped ms) ?k"
    using k by (simp add: map_has_def grouped_def map_of_keyed)
  have get: "map_get (grouped ms) ?k = Some (members_of ?k ms)"
    using k by (simp add: map_get_def grouped_def map_of_keyed)
  have "add_member (grouped ms) m = map_set ?k (members_of ?k ms @ [m]) (grouped ms)"
    by (simp add: add_member_def has get)
  also have "\<dots> = map (\<lambda>s. (s, if s = ?k then members_of ?k ms @ [m] else members_of s ms)) ?ks"
    unfolding grouped_def by (rule map_set_replace [OF k distinct_first_seen])
  also have "\<dots> = map (\<lambda>s. (s, members_of s (ms @ [m]))) ?ks"
    by (intro map_cong) (auto simp: members_of_def)
  also have "\<dots> = grouped (ms @ [m])"
    using True by (simp add: grouped_def first_seen_snoc)
  finally show ?thesis .
next
  case False
  let ?k = "member_symbol m"
  let ?ks = "first_seen (map member_symbol ms)"
  from False have k: "?k \<notin> set ?ks"
    by (simp add: set_first_seen)
  then have fresh: "?k \<notin> fst ` set (grouped ms)"
    by (auto simp: grouped_def)
  have has: "\<not> map_has (grouped ms) ?k"
    using k by (simp add: map_has_def grouped_def map_of_keyed)
  have set1: "map_set ?k [] (grouped ms) = grouped ms @ [(?k, [])]"
    by (rule map_set_fresh [OF fresh])
  have get: "map_get (grouped ms @ [(?k, [])]) ?k = Some []"
    using k by (simp add: map_get_def grouped_def map_add_def map_of_keyed)
  have set2: "map_set ?k [m] (grouped ms @ [(?k, [])]) = grouped ms @ [(?k, [m])]"
    by (rule map_set_last [OF fresh])
  have none: "members_of ?k ms = []"
    using False by (force simp: members_of_def filter_empty_conv image_iff)
  have a: "add_member (grouped ms) m = grouped ms @ [(?k, [m])]"
    by (simp add: add_member_def has set1 get set2)
  have b: "grouped ms = map (\<lambda>s. (s, members_of s (ms @ [m]))) ?ks"
    unfolding grouped_def using k by (intro map_cong) (auto simp: members_of_def)
  have c: "grouped (ms @ [m]) = map (\<lambda>s. (s, members_of s (ms @ [m]))) ?ks @ [(?k, [m])]"
    using False none by (simp add: grouped_def first_seen_snoc members_of_def)
  show ?thesis
    unfolding a c using b by simp
qed

lemma fold_add_member: "foldl add_member [] ms = grouped ms"
proof (induction ms rule: rev_induct)
  case Nil
  then show ?case by (simp add: grouped_def first_seen_Nil)
next
  case (snoc m ms)
  then show ?case by (simp add: add_member_grouped)
qed

lemma build_pairMap_closed: "build_pairMap cfg exchangeData = grouped (listings cfg exchangeData)"
  by (simp add: build_pairMap_fold fold_add_member)

lemma findSharedPairs_closed:
  "findSharedPairs cfg exchangeData = shared_groups (listings cfg exchangeData)"
  by (simp add: findSharedPairs_def build_pairMap_closed grouped_def shared_groups_def
      filter_map o_def)

lemma listings_filter:
  "listings cfg exchangeData = filter (\<lambda>m. kept cfg (pairData m)) (all_listings exchangeData)"
  by (induction exchangeData) (simp_all add: listings_def all_listings_def filter_map o_def)

lemma listings_inactive:
  assumes "quoteAssetsFilter cfg = None \<or> quoteAssetsFilter cfg = Some []"
  shows "listings cfg exchangeData = all_listings exchangeData"
proof -
  have "kept cfg p" for p
    using assms by (auto simp: kept_def)
  then show ?thesis
    by (simp add: listings_filter)
qed

lemma listings_active:
  assumes "quoteAssetsFilter cfg = Some f" and "f \<noteq> []"
  shows "listings cfg exchangeData =
     filter (\<lambda>m. quote (pairData m) \<in> set f) (all_listings exchangeData)"
proof -
  have "kept cfg p \<longleftrightarrow> quote p \<in> set f" for p
    using assms by (simp add: kept_def)
  then show ?thesis
    by (simp add: listings_filter)
qed

lemma shared_groups_members:
  assumes "g \<in> set (shared_groups ms)" and "m \<in> set (exchanges g)"
  shows "m \<in> set ms \<and> member_symbol m = sp_symbol g"
  using assms by (auto simp: shared_groups_def members_of_def)

lemma filter_symbol_short:
  assumes "distinct (map symbol ps)"
  shows "length (filter (\<lambda>p. symbol p = smb \<and> P p) ps) \<le> 1"
  using assms
proof (induction ps)
  case Nil
  then show ?case by simp
next
  case (Cons p ps)
  show ?case
  proof (cases "symbol p = smb")
    case True
    then have "\<forall>q \<in> set ps. symbol q \<noteq> smb"
      using Cons.prems by (force simp: image_iff)
    then have "filter (\<lambda>p. symbol p = smb \<and> P p) ps = []"
      by (simp add: filter_empty_conv)
    then show ?thesis by simp
  next
    case False
    then show ?thesis
      using Cons by simp
  qed
qed

lemma member_names_of_symbol:
  "map member_name (members_of smb (listings cfg exchangeData)) =
     concat (map (\<lambda>e. map (\<lambda>p. name e) (filter (\<lambda>p. symbol p = smb \<and> kept cfg p) (pairs e)))
               exchangeData)"
  by (induction exchangeData)
    (simp_all add: listings_def members_of_def member_symbol_def filter_map o_def conj_commute)

lemma distinct_sources_of_symbol:
  assumes "distinct (map name exchangeData)"
    and "\<forall>e \<in> set exchangeData. distinct (map symbol (pairs e))"
  shows "distinct (map member_name (members_of smb (listings cfg exchangeData)))"
proof -
  let ?row = "\<lambda>e. map (\<lambda>p. name e) (filter (\<lambda>p. symbol p = smb \<and> kept cfg p) (pairs e))"
  have row: "?row e = [] \<or> ?row e = [name e]" if "e \<in> set exchangeData" for e
  proof -
    have "length (filter (\<lambda>p. symbol p = smb \<and> kept cfg p) (pairs e)) \<le> 1"
      using assms(2) that by (intro filter_symbol_short) simp
    then have "length (?row e) = 0 \<or> length (?row e) = 1"
      by (simp add: le_Suc_eq)
    then show ?thesis
      by (cases "filter (\<lambda>p. symbol p = smb \<and> kept cfg p) (pairs e)") auto
  qed
  have "distinct (concat (map ?row es)) \<and> set (concat (map ?row es)) \<subseteq> name ` set es"
    if "distinct (map name es)" "set es \<subseteq> set exchangeData" for es
    using that
  proof (induction es)
    case Nil
    then show ?case by simp
  next
    case (Cons e es)
    then have ih: "distinct (concat (map ?row es))" "set (concat (map ?row es)) \<subseteq> name ` set es"
      by simp_all
    have "name e \<notin> name ` set es"
      using Cons.prems(1) by simp
    then have fresh: "name e \<notin> set (concat (map ?row es))"
      using ih(2) by blast
    from Cons.prems(2) have "e \<in> set exchangeData"
      by simp
    from row [OF this] show ?case
    proof
      assume "?row e = []"
      then show ?thesis using ih by auto
    next
      assume "?row e = [name e]"
      then show ?thesis using ih fresh by auto
    qed
  qed
  from this [of exchangeData] assms(1) show ?thesis
    by (simp add: member_names_of_symbol)
qed

text \<open>
  The emitted symbols are the symbols with at least 2 listings, in first-seen order, each
  once.
\<close>

lemma resolver_groups:
  "map sp_symbol (findSharedPairs cfg exchangeData) =
     filter (\<lambda>smb. 2 \<le> length (members_of smb (listings cfg exchangeData)))
       (first_seen (map member_symbol (listings cfg exchangeData)))"
  "distinct (map sp_symbol (findSharedPairs cfg exchangeData))"
  by (simp_all add: findSharedPairs_closed shared_groups_def o_def distinct_first_seen)

text \<open>
  When the sources have pairwise distinct names and no source lists a symbol twice, the
  members of every emitted group are on pairwise distinct sources, at least 2 of them.
\<close>

lemma resolver_distinct_sources:
  assumes "distinct (map name exchangeData)"
    and "\<forall>e \<in> set exchangeData. distinct (map symbol (pairs e))"
    and "g \<in> set (findSharedPairs cfg exchangeData)"
  shows "distinct (map member_name (exchanges g))" and "2 \<le> length (exchanges g)"
  using assms(3) distinct_sources_of_symbol [OF assms(1,2)]
  by (auto simp: findSharedPairs_closed shared_groups_def)

subsection \<open>Enrichment in closed form\<close>

lemma distinct_put_ticker:
  "distinct (map fst m) \<Longrightarrow> distinct (map fst (put_ticker exs m it))"
  by (cases it) (simp add: put_ticker_def distinct_map_set split: option.splits)

lemma distinct_fold_put_ticker:
  "distinct (map fst m) \<Longrightarrow> distinct (map fst (foldl (put_ticker exs) m its))"
  by (induction its arbitrary: m) (simp_all add: distinct_put_ticker)

lemma distinct_collect_valid: "distinct (map fst (collect_valid exs results))"
  unfolding collect_valid_def by (rule distinct_fold_put_ticker) simp

lemma enrich_distinct:
  assumes "enrichSinglePairWithTickers repos g = Some ep"
  shows "distinct (map fst (tickers ep))"
  using assms distinct_collect_valid
  by (auto simp: enrichSinglePairWithTickers_def Let_def split: promise.splits if_splits)

lemma fold_put_ticker:
  "foldl (put_ticker exs) m (enumerate n results) =
     foldl (\<lambda>m kv. map_set (fst kv) (snd kv) m) m
       (concat (map (\<lambda>(i, r). case r of None \<Rightarrow> [] | Some t \<Rightarrow> [(member_name (exs ! i), t)])
          (enumerate n results)))"
proof (induction results arbitrary: m n)
  case Nil
  then show ?case by simp
next
  case (Cons r results)
  then show ?case
    by (cases r) (simp_all add: put_ticker_def)
qed

lemma resolved_results:
  assumes "promise_all (map (call_fetchTicker repos) exs) = Resolved results"
  shows "concat (map (\<lambda>(i, r). case r of None \<Rightarrow> [] | Some t \<Rightarrow> [(member_name (exs ! i), t)])
          (enumerate 0 results)) = usable_tickers repos exs"
proof -
  from assms have eq: "map (call_fetchTicker repos) exs = map Resolved results"
    by (rule promise_all_Resolved_D)
  then have len: "length results = length exs"
    using length_map by metis
  have at: "call_fetchTicker repos (exs ! i) = Resolved (results ! i)" if "i < length exs" for i
  proof -
    have "map (call_fetchTicker repos) exs ! i = map Resolved results ! i"
      by (simp only: eq)
    then show ?thesis
      using that len by simp
  qed
  have "map (\<lambda>(i, r). case r of None \<Rightarrow> [] | Some t \<Rightarrow> [(member_name (exs ! i), t)])
          (enumerate 0 results) =
        map (\<lambda>ex. case call_fetchTicker repos ex of
                          Resolved (Some t) \<Rightarrow> [(member_name ex, t)]
                        | _ \<Rightarrow> []) exs"
  proof (rule nth_equalityI)
    show "length (map (\<lambda>(i, r). case r of None \<Rightarrow> [] | Some t \<Rightarrow> [(member_name (exs ! i), t)])
          (enumerate 0 results)) =
        length (map (\<lambda>ex. case call_fetchTicker repos ex of
                          Resolved (Some t) \<Rightarrow> [(member_name ex, t)]
                        | _ \<Rightarrow> []) exs)"
      by (simp add: len)
  next
    fix i
    assume "i < length (map (\<lambda>(i, r). case r of None \<Rightarrow> [] | Some t \<Rightarrow> [(member_name (exs ! i), t)])
          (enumerate 0 results))"
    then have i: "i < length exs"
      by (simp add: len)
    then show "map (\<lambda>(i, r). case r of None \<Rightarrow> [] | Some t \<Rightarrow> [(member_name (exs ! i), t)])
          (enumerate 0 results) ! i =
        map (\<lambda>ex. case call_fetchTicker repos ex of
                          Resolved (Some t) \<Rightarrow> [(member_name ex, t)]
                        | _ \<Rightarrow> []) exs ! i"
      using at [OF i] by (simp add: len nth_enumerate_eq split: option.splits)
  qed
  then show ?thesis
    by (simp add: usable_tickers_def)
qed

lemma collect_valid_usable:
  assumes "promise_all (map (call_fetchTicker repos) exs) = Resolved results"
  shows "collect_valid exs results =
     foldl (\<lambda>m kv. map_set (fst kv) (snd kv) m) [] (usable_tickers repos exs)"
  unfolding collect_valid_def fold_put_ticker resolved_results [OF assms] ..

lemma collect_valid_keys:
  assumes "promise_all (map (call_fetchTicker repos) exs) = Resolved results"
  shows "fst ` set (collect_valid exs results) = fst ` set (usable_tickers repos exs)"
  unfolding collect_valid_usable [OF assms] fold_map_set_keys by simp

lemma collect_valid_length:
  assumes "promise_all (map (call_fetchTicker repos) exs) = Resolved results"
  shows "length (collect_valid exs results) = card (fst ` set (usable_tickers repos exs))"
proof -
  have "length (collect_valid exs results) = length (map fst (collect_valid exs results))"
    by simp
  also have "\<dots> = card (set (map fst (collect_valid exs results)))"
    using distinct_card [OF distinct_collect_valid, of exs results] by simp
  also have "\<dots> = card (fst ` set (usable_tickers repos exs))"
    using collect_valid_keys [OF assms] by simp
  finally show ?thesis .
qed

lemma usable_names_sub: "map fst (usable_tickers repos exs) =
    map member_name (filter (\<lambda>ex. \<exists>t. call_fetchTicker repos ex = Resolved (Some t)) exs)"
  unfolding usable_tickers_def
  by (induction exs) (auto split: promise.splits option.splits)

lemma usable_distinct:
  assumes "distinct (map member_name exs)"
  shows "distinct (map fst (usable_tickers repos exs))"
  unfolding usable_names_sub using assms by (simp add: distinct_map_filter)

lemma collect_valid_distinct_names:
  assumes "promise_all (map (call_fetchTicker repos) exs) = Resolved results"
    and "distinct (map member_name exs)"
  shows "collect_valid exs results = usable_tickers repos exs"
  unfolding collect_valid_usable [OF assms(1)]
  using fold_map_set_fresh [OF usable_distinct [OF assms(2)], of "[]" repos] by simp

lemma enrich_rejected:
  assumes "Rejected \<in> call_fetchTicker repos ` set (exchanges g)"
  shows "enrichSinglePairWithTickers repos g = None"
proof -
  have "promise_all (map (call_fetchTicker repos) (exchanges g)) = Rejected"
    using assms by (simp add: promise_all_Rejected_iff)
  then show ?thesis
    by (simp add: enrichSinglePairWithTickers_def)
qed

lemma enrich_resolved:
  assumes "Rejected \<notin> call_fetchTicker repos ` set (exchanges g)"
  shows "\<exists>results. promise_all (map (call_fetchTicker repos) (exchanges g)) = Resolved results \<and>
     enrichSinglePairWithTickers repos g =
       (if 2 \<le> card (fst ` set (usable_tickers repos (exchanges g)))
        then Some \<lparr>sp_symbol = sp_symbol g, exchanges = exchanges g,
                    tickers = collect_valid (exchanges g) results\<rparr>
        else None)"
proof (cases "promise_all (map (call_fetchTicker repos) (exchanges g))")
  case (Resolved results)
  then show ?thesis
    by (simp add: enrichSinglePairWithTickers_def Let_def collect_valid_length [OF Resolved])
next
  case Rejected
  then show ?thesis
    using assms by (simp add: promise_all_Rejected_iff)
qed

subsection \<open>The loops of the spread detector in closed form\<close>

lemma pair_step_append:
  "pair_step cfg smb ts i j opps = opps @ pair_step cfg smb ts i j []"
  by (simp add: pair_step_def split: prod.splits)

lemma pair_step_same: "pair_step cfg smb ts i i opps = opps"
  by (simp add: pair_step_def)

lemma pair_step_eq:
  "pair_step cfg smb ts i j [] =
     (if i \<noteq> j \<and> fires cfg (snd (ts ! i)) (snd (ts ! j))
      then [candidate cfg smb (ts ! i) (ts ! j)] else [])"
  by (simp add: pair_step_def fires_def candidate_def split: prod.splits)

lemma inner_loop_closed:
  "inner_loop cfg smb ts i j opps =
     opps @ concat (map (\<lambda>j. pair_step cfg smb ts i j []) [j..<length ts])"
proof (induction cfg smb ts i j opps rule: inner_loop.induct)
  case (1 cfg smb ts i j opps)
  show ?case
  proof (cases "j < length ts")
    case True
    then have "inner_loop cfg smb ts i j opps =
        inner_loop cfg smb ts i (j + 1) (pair_step cfg smb ts i j opps)"
      by (subst inner_loop.simps) simp
    also have "\<dots> = pair_step cfg smb ts i j opps @
        concat (map (\<lambda>j. pair_step cfg smb ts i j []) [j + 1..<length ts])"
      using "1.IH" [OF True] .
    also have "\<dots> = opps @ pair_step cfg smb ts i j [] @
        concat (map (\<lambda>j. pair_step cfg smb ts i j []) [j + 1..<length ts])"
      by (subst pair_step_append) simp
    finally show ?thesis
      using True by (simp add: upt_conv_Cons)
  next
    case False
    then show ?thesis
      by (subst inner_loop.simps) simp
  qed
qed

lemma outer_loop_closed:
  "outer_loop cfg smb ts i opps =
     opps @ concat (map (\<lambda>i. concat (map (\<lambda>j. pair_step cfg smb ts i j []) [0..<length ts]))
              [i..<length ts])"
proof (induction cfg smb ts i opps rule: outer_loop.induct)
  case (1 cfg smb ts i opps)
  show ?case
  proof (cases "i < length ts")
    case True
    then have "outer_loop cfg smb ts i opps =
        outer_loop cfg smb ts (i + 1) (inner_loop cfg smb ts i 0 opps)"
      by (subst outer_loop.simps) simp
    also have "\<dots> = inner_loop cfg smb ts i 0 opps @
        concat (map (\<lambda>i. concat (map (\<lambda>j. pair_step cfg smb ts i j []) [0..<length ts]))
              [i + 1..<length ts])"
      using "1.IH" [OF True] .
    finally show ?thesis
      using True by (simp add: inner_loop_closed upt_conv_Cons)
  next
    case False
    then show ?thesis
      by (subst outer_loop.simps) simp
  qed
qed

lemma concat_map_product:
  "concat (map (\<lambda>(i, j). f i j) (concat (map (\<lambda>i. map (\<lambda>j. (i, j)) ys) xs))) =
     concat (map (\<lambda>i. concat (map (\<lambda>j. f i j) ys)) xs)"
  by (induction xs) (simp_all add: o_def)

lemma concat_map_enumeration:
  "concat (map (\<lambda>(i, j). f i j) (enumeration n)) =
     concat (map (\<lambda>i. concat (map (\<lambda>j. f i j) [0..<n])) [0..<n])"
  unfolding enumeration_def by (rule concat_map_product)

lemma set_enumeration: "set (enumeration n) = {(i, j). i < n \<and> j < n}"
  by (auto simp: enumeration_def)

lemma sorted_row: "sorted_wrt before (map (\<lambda>j. (i, j)) [0..<n])"
  by (simp add: sorted_wrt_map before_def)

lemma sorted_rows:
  assumes "sorted_wrt (<) is"
  shows "sorted_wrt before (concat (map (\<lambda>i. map (\<lambda>j. (i, j)) [0..<n]) is))"
  using assms
proof (induction "is")
  case Nil
  then show ?case by simp
next
  case (Cons i "is")
  then show ?case
    by (auto simp: sorted_wrt_append sorted_row) (auto simp: before_def)
qed

lemma sorted_enumeration: "sorted_wrt before (enumeration n)"
  unfolding enumeration_def by (rule sorted_rows) simp

lemma find_small:
  assumes "length (tickers ep) < 2"
  shows "concat (map (\<lambda>i. concat (map (\<lambda>j. pair_step cfg (sp_symbol ep) (tickers ep) i j [])
           [0..<length (tickers ep)])) [0..<length (tickers ep)]) = []"
proof -
  from assms have "length (tickers ep) = 0 \<or> length (tickers ep) = Suc 0"
    by arith
  then show ?thesis
  proof
    assume "length (tickers ep) = 0"
    then show ?thesis by simp
  next
    assume "length (tickers ep) = Suc 0"
    then show ?thesis by (simp add: pair_step_same)
  qed
qed

lemma find_closed:
  "findOpportunitiesInSinglePair cfg ep =
     concat (map (\<lambda>(i, j). pair_step cfg (sp_symbol ep) (tickers ep) i j [])
       (enumeration (length (tickers ep))))"
proof (cases "length (tickers ep) < 2")
  case True
  then show ?thesis
    unfolding concat_map_enumeration find_small [OF True]
    by (simp add: findOpportunitiesInSinglePair_def)
next
  case False
  then show ?thesis
    unfolding concat_map_enumeration
    by (simp add: findOpportunitiesInSinglePair_def outer_loop_closed)
qed

lemma find_mem_iff:
  "opp \<in> set (findOpportunitiesInSinglePair cfg ep) \<longleftrightarrow>
     (\<exists>i j. i < length (tickers ep) \<and> j < length (tickers ep) \<and> i \<noteq> j \<and>
        fires cfg (snd (tickers ep ! i)) (snd (tickers ep ! j)) \<and>
        opp = candidate cfg (sp_symbol ep) (tickers ep ! i) (tickers ep ! j))"
  by (auto simp: find_closed set_enumeration pair_step_eq split: if_splits)

lemma candidate_fields:
  "pair (candidate cfg smb buy sell) = smb"
  "profitPercentage (candidate cfg smb buy sell) =
     toFixed4 (grossProfitPercentage (snd buy) (snd sell))"
  "buyAt (candidate cfg smb buy sell) = \<lparr>leg_exchange = fst buy, leg_price = ask (snd buy)\<rparr>"
  "sellAt (candidate cfg smb buy sell) = \<lparr>leg_exchange = fst sell, leg_price = bid (snd sell)\<rparr>"
  "validation (candidate cfg smb buy sell) = None"
  by (simp_all add: candidate_def)



lemma find_sources_differ:
  assumes "distinct (map fst (tickers ep))"
    and "opp \<in> set (findOpportunitiesInSinglePair cfg ep)"
  shows "leg_exchange (buyAt opp) \<noteq> leg_exchange (sellAt opp)"
proof -
  from assms(2) obtain i j where ij: "i < length (tickers ep)" "j < length (tickers ep)" "i \<noteq> j"
    and o: "opp = candidate cfg (sp_symbol ep) (tickers ep ! i) (tickers ep ! j)"
    by (auto simp: find_mem_iff)
  have "map fst (tickers ep) ! i \<noteq> map fst (tickers ep) ! j"
    using nth_eq_iff_index_eq [of "map fst (tickers ep)" i j] assms(1) ij
    by (simp del: nth_map)
  then show ?thesis
    using ij by (simp add: o candidate_fields)
qed

subsection \<open>Signs in double arithmetic, and rounding to four decimals\<close>

lemma pow2_pos: "0 < pow2 q"
  by (simp add: pow2_def)

text \<open>
  The exponent found by halving or doubling is the binary exponent of a positive number,
  and a finite rounding result lies within half a spacing of the number rounded.
\<close>

lemma pow2_powi: "pow2 e = 2 powi e"
  by (simp add: pow2_def power_int_def power_divide)

lemma log2_up_bounds:
  assumes "1 \<le> x"
  shows "0 \<le> log2_up x \<and> pow2 (log2_up x) \<le> x \<and> x < pow2 (log2_up x + 1)"
  using assms
proof (induction x rule: log2_up.induct)
  case (1 x)
  show ?case
  proof (cases "x < 2")
    case True
    then have "log2_up x = 0"
      by (subst log2_up.simps) simp
    then show ?thesis
      using True "1.prems" by (simp add: pow2_def)
  next
    case False
    then have e: "log2_up x = 1 + log2_up (x / 2)"
      by (subst log2_up.simps) simp
    have ih: "0 \<le> log2_up (x / 2) \<and> pow2 (log2_up (x / 2)) \<le> x / 2 \<and>
        x / 2 < pow2 (log2_up (x / 2) + 1)"
      using False by (intro "1.IH") simp_all
    have s: "pow2 (k + 1) = 2 * pow2 k" for k
      by (simp add: pow2_powi power_int_add)
    show ?thesis
      unfolding e using ih s [of "log2_up (x / 2)"] s [of "1 + log2_up (x / 2)"]
      by (simp add: add.commute)
  qed
qed

lemma log2_down_bounds:
  assumes "0 < x" and "x < 1"
  shows "pow2 (log2_down x) \<le> x \<and> x < pow2 (log2_down x + 1)"
  using assms
proof (induction x rule: log2_down.induct)
  case (1 x)
  have e: "log2_down x = log2_down (2 * x) - 1"
    using "1.prems" by (subst log2_down.simps) simp
  have s: "pow2 (k - 1) = pow2 k / 2" for k
    by (simp add: pow2_powi power_int_diff)
  show ?case
  proof (cases "2 * x < 1")
    case True
    have "pow2 (log2_down (2 * x)) \<le> 2 * x \<and> 2 * x < pow2 (log2_down (2 * x) + 1)"
      using True "1.prems" by (intro "1.IH") simp_all
    then show ?thesis
      unfolding e using s [of "log2_down (2 * x)"] s [of "log2_down (2 * x) + 1"]
      by simp
  next
    case False
    then have "log2_down (2 * x) = 0"
      by (subst log2_down.simps) simp
    then show ?thesis
      unfolding e using False "1.prems" by (simp add: pow2_def)
  qed
qed

lemma ilog2_bounds:
  assumes "0 < x"
  shows "pow2 (ilog2 x) \<le> x \<and> x < pow2 (ilog2 x + 1)"
proof (cases "1 \<le> x")
  case True
  then show ?thesis
    using log2_up_bounds [OF True] by (simp add: ilog2_def)
next
  case False
  then show ?thesis
    using log2_down_bounds [of x] assms by (simp add: ilog2_def)
qed

lemma round_even_near: "\<bar>of_int (round_even y) - y\<bar> \<le> 1 / 2"
proof -
  have "of_int \<lfloor>y\<rfloor> \<le> y" and "y < of_int \<lfloor>y\<rfloor> + 1"
    by linarith+
  then show ?thesis
    unfolding round_even_def Let_def by (auto simp: abs_le_iff)
qed

lemma fl_near:
  assumes "fl x = Finite r"
  shows "\<bar>r - x\<bar> \<le> pow2 (max (ilog2 \<bar>x\<bar> - 52) (- 1074)) / 2"
proof (cases "x = 0")
  case True
  then show ?thesis
    using assms pow2_pos [of "max (ilog2 \<bar>x\<bar> - 52) (- 1074)"] by (simp add: fl_def)
next
  case False
  define q where "q = max (ilog2 \<bar>x\<bar> - 52) (- 1074)"
  define k where "k = round_even (x / pow2 q)"
  have r: "r = of_int k * pow2 q"
    using assms False unfolding fl_def Let_def q_def [symmetric] k_def [symmetric]
    by (simp split: if_splits)
  have p: "0 < pow2 q"
    by (rule pow2_pos)
  have "\<bar>of_int k - x / pow2 q\<bar> \<le> 1 / 2"
    unfolding k_def by (rule round_even_near)
  then have "\<bar>of_int k - x / pow2 q\<bar> * pow2 q \<le> 1 / 2 * pow2 q"
    using p by (intro mult_right_mono) simp_all
  moreover have "\<bar>of_int k - x / pow2 q\<bar> * pow2 q = \<bar>of_int k * pow2 q - x\<bar>"
  proof -
    have "\<bar>of_int k - x / pow2 q\<bar> * pow2 q = \<bar>(of_int k - x / pow2 q) * pow2 q\<bar>"
      using p by (simp add: abs_mult)
    also have "(of_int k - x / pow2 q) * pow2 q = of_int k * pow2 q - x"
      using p by (simp add: field_simps)
    finally show ?thesis .
  qed
  ultimately show ?thesis
    unfolding r q_def by simp
qed


lemma round_even_nonpos:
  assumes "y \<le> 0"
  shows "round_even y \<le> 0"
proof (cases "y = 0")
  case True
  then show ?thesis
    by (simp add: round_even_def)
next
  case False
  with assms have "y < 0"
    by simp
  then have "\<lfloor>y\<rfloor> < 0"
    by simp
  then have "\<lfloor>y\<rfloor> \<le> 0" and "\<lfloor>y\<rfloor> + 1 \<le> 0"
    by linarith+
  then show ?thesis
    by (simp add: round_even_def Let_def)
qed


lemma fl_nonpos:
  assumes "x \<le> 0"
  shows "\<not> js_gt (fl x) (Finite 0)"
proof (cases "x = 0")
  case True
  then show ?thesis
    by (simp add: fl_def)
next
  case False
  define q where "q = max (ilog2 \<bar>x\<bar> - 52) (- 1074)"
  have "x / pow2 q \<le> 0"
    using assms pow2_pos [of q] by (simp add: divide_le_0_iff)
  then have "round_even (x / pow2 q) \<le> 0"
    by (rule round_even_nonpos)
  then have "real_of_int (round_even (x / pow2 q)) * pow2 q \<le> 0"
    using pow2_pos [of q] by (simp add: mult_le_0_iff)
  then show ?thesis
    using False assms unfolding fl_def Let_def q_def by simp
qed



lemma js_div_nonpos:
  assumes "\<not> js_gt v (Finite 0)" and "0 < a"
  shows "\<not> js_gt (js_div v (Finite a)) (Finite 0)"
proof (cases v)
  case (Finite r)
  then have "r / a \<le> 0"
    using assms by (simp add: divide_le_0_iff)
  then show ?thesis
    using assms Finite by (simp add: fl_nonpos)
qed (use assms in simp_all)

lemma js_mul_nonpos:
  assumes "\<not> js_gt v (Finite 0)"
  shows "\<not> js_gt (js_mul v (Finite 100)) (Finite 0)"
proof (cases v)
  case (Finite r)
  then have "r * 100 \<le> 0"
    using assms by simp
  then show ?thesis
    using Finite by (simp add: fl_nonpos)
qed (use assms in simp_all)


lemma js_ge_gt_trans:
  assumes "js_ge g m" and "js_gt m (Finite 0)"
  shows "js_gt g (Finite 0)"
  using assms by (cases g; cases m) simp_all


text \<open>
  The spread computed for a positive buy price that the sell price does not exceed is not
  positive (it may be NaN).
\<close>

lemma gross_nonpos:
  assumes "js_gt a (Finite 0)" and "\<not> js_gt b a"
  shows "\<not> js_gt (js_mul (js_div (js_sub b a) a) (Finite 100)) (Finite 0)"
proof (cases a)
  case (Finite x)
  then have x: "0 < x"
    using assms(1) by simp
  have "\<not> js_gt (js_sub b a) (Finite 0)"
  proof (cases b)
    case b: (Finite y)
    then have "y - x \<le> 0"
      using assms(2) Finite by simp
    then show ?thesis
      using b Finite by (simp add: fl_nonpos)
  qed (use assms(2) Finite in simp_all)
  then show ?thesis
    unfolding Finite using x by (intro js_mul_nonpos js_div_nonpos)
next
  case PosInf
  then show ?thesis
    by (cases b) simp_all
qed (use assms in simp_all)



subsection \<open>The validator in closed form\<close>

lemma validate_eq:
  "validateSingleOpportunity repos opp =
     (case promise_all (status_lookups repos opp) of
        Resolved [bb, bq, sb, sq] \<Rightarrow> Some (attach_validation opp bb bq sb sq)
      | _ \<Rightarrow> None)"
  by (simp add: validateSingleOpportunity_def status_lookups_def baseAsset_of_def
      quoteAsset_of_def Let_def)

lemma validate_resolved:
  assumes "status_lookups repos opp = [Resolved bb, Resolved bq, Resolved sb, Resolved sq]"
  shows "validateSingleOpportunity repos opp = Some (attach_validation opp bb bq sb sq)"
proof -
  have "promise_all (status_lookups repos opp) = Resolved [bb, bq, sb, sq]"
    unfolding promise_all_Resolved_iff assms by simp
  then show ?thesis
    by (simp add: validate_eq)
qed

lemma validate_rejected:
  assumes "Rejected \<in> set (status_lookups repos opp)"
  shows "validateSingleOpportunity repos opp = None"
proof -
  have "promise_all (status_lookups repos opp) = Rejected"
    using assms by (simp add: promise_all_Rejected_iff)
  then show ?thesis
    by (simp add: validate_eq)
qed

lemma length_status_lookups: "length (status_lookups repos opp) = 4"
  by (simp add: status_lookups_def)

lemma status_lookups_cases:
  obtains "Rejected \<in> set (status_lookups repos opp)"
  | bb bq sb sq where
      "status_lookups repos opp = [Resolved bb, Resolved bq, Resolved sb, Resolved sq]"
proof (cases "promise_all (status_lookups repos opp)")
  case (Resolved xs)
  then have eq: "status_lookups repos opp = map Resolved xs"
    by (simp add: promise_all_Resolved_iff)
  then have "length xs = 4"
    using length_status_lookups [of repos opp] by simp
  then obtain bb bq sb sq where "xs = [bb, bq, sb, sq]"
    by (auto simp: length_Suc_conv numeral_eq_Suc)
  with eq that(2) show ?thesis by simp
next
  case Rejected
  then show ?thesis
    using that(1) by (simp add: promise_all_Rejected_iff)
qed

lemma validate_None_iff:
  "validateSingleOpportunity repos opp = None \<longleftrightarrow> Rejected \<in> set (status_lookups repos opp)"
proof (cases rule: status_lookups_cases [of repos opp])
  case 1
  then show ?thesis by (simp add: validate_rejected)
next
  case (2 bb bq sb sq)
  then show ?thesis by (simp add: validate_resolved)
qed

lemma attach_validation_eq:
  "attach_validation opp bb bq sb sq =
     opp\<lparr>validation := Some
       \<lparr>isExecutable =
          (can_withdraw_of bb \<and> can_deposit_of sb \<and>
           filter (\<lambda>net. net \<in> set (deposit_of sb)) (withdraw_of bb) \<noteq> []),
        commonNetworks = filter (\<lambda>net. net \<in> set (deposit_of sb)) (withdraw_of bb),
        buyExchange =
          \<lparr>buy_canWithdraw = can_withdraw_of bb,
           buy_withdrawNetworks = map_option withdrawNetworks bb\<rparr>,
        sellExchange =
          \<lparr>sell_canDeposit = can_deposit_of sb,
           sell_depositNetworks = map_option depositNetworks sb\<rparr>,
        assetDetails =
          \<lparr>baseAsset =
             \<lparr>on_buyExchange = assetInfo_or_null bb,
              on_sellExchange = assetInfo_or_null sb\<rparr>,
           quoteAsset =
             \<lparr>on_buyExchange = assetInfo_or_null bq,
              on_sellExchange = assetInfo_or_null sq\<rparr>\<rparr>\<rparr>\<rparr>"
  by (simp add: attach_validation_def Let_def can_withdraw_of_def can_deposit_of_def
      withdraw_of_def deposit_of_def js_includes_def)

lemma validate_keeps:
  assumes "validateSingleOpportunity repos opp = Some opp'"
  shows "\<exists>v. opp' = opp\<lparr>validation := Some v\<rparr>"
  using assms
  by (auto simp: validateSingleOpportunity_def attach_validation_def Let_def
      split: option.splits promise.splits list.splits)

lemma validate_keeps_fields:
  assumes "validateSingleOpportunity repos opp = Some opp'"
  shows "buyAt opp' = buyAt opp" "sellAt opp' = sellAt opp"
    "profitPercentage opp' = profitPercentage opp" "pair opp' = pair opp" "spread opp' = spread opp"
  using validate_keeps [OF assms] by (auto simp: spread_def)

subsection \<open>The trace of a run in closed form\<close>

lemma validate_each_eq: "validate_each repos opps = map Yield (validated repos opps)"
  unfolding validate_each_def validated_def
  by (induction opps) (simp_all split: option.splits)

lemma group_step_eq:
  "group_step repos cfg g =
     (if candidates repos cfg g = [] then []
      else map Yield (validated repos (candidates repos cfg g)) @ [Delay 30])"
  by (simp add: group_step_def candidates_def validate_each_eq Let_def split: option.splits)

lemma stream_loop_closed:
  "stream_loop repos cfg gs i =
     concat (map (\<lambda>k. Progress (sp_symbol (gs ! k)) (k + 1) (length gs) #
                        group_step repos cfg (gs ! k)) [i..<length gs])"
proof (induction repos cfg gs i rule: stream_loop.induct)
  case (1 repos cfg gs i)
  show ?case
  proof (cases "i < length gs")
    case True
    then have "stream_loop repos cfg gs i =
        Progress (sp_symbol (gs ! i)) (i + 1) (length gs) # group_step repos cfg (gs ! i) @
          stream_loop repos cfg gs (i + 1)"
      by (subst stream_loop.simps) simp
    then show ?thesis
      using True "1.IH" [OF True] by (simp add: upt_conv_Cons)
  next
    case False
    then show ?thesis
      by (subst stream_loop.simps) simp
  qed
qed

lemma map_index: "map (\<lambda>k. f (gs ! k)) [0..<length gs] = map f gs"
  by (rule nth_equalityI) simp_all

lemma yields_append: "yields (xs @ ys) = yields xs @ yields ys"
  by (simp add: yields_def)

lemma yields_map_Yield: "yields (map Yield opps) = opps"
  unfolding yields_def by (induction opps) simp_all

lemma validated_Nil: "validated repos [] = []"
  by (simp add: validated_def)

lemma yields_group_step:
  "yields (group_step repos cfg g) = validated repos (candidates repos cfg g)"
  by (simp add: group_step_eq yields_append yields_map_Yield validated_Nil) (simp add: yields_def)

lemma yields_concat: "yields (concat xss) = concat (map yields xss)"
  by (induction xss) (simp_all add: yields_append, simp add: yields_def)

lemma yields_Progress: "yields (Progress s a b # tr) = yields tr"
  by (simp add: yields_def)

lemma yields_stream:
  "yields (streamOpportunities repos cfg gs) =
     concat (map (\<lambda>g. validated repos (candidates repos cfg g)) gs)"
proof -
  have "yields (stream_loop repos cfg gs 0) =
      concat (map (\<lambda>k. validated repos (candidates repos cfg (gs ! k))) [0..<length gs])"
    by (simp add: stream_loop_closed yields_concat o_def yields_Progress yields_group_step)
  also have "\<dots> = concat (map (\<lambda>g. validated repos (candidates repos cfg g)) gs)"
    using map_index [of "\<lambda>g. validated repos (candidates repos cfg g)" gs] by simp
  finally show ?thesis
    by (simp add: streamOpportunities_def yields_append) (simp add: yields_def)
qed

lemma Yield_mem_iff: "Yield opp \<in> set tr \<longleftrightarrow> opp \<in> set (yields tr)"
  by (auto simp: yields_def split: event.splits)

lemma stream_yield_origin:
  assumes "Yield opp' \<in> set (streamOpportunities repos cfg gs)"
  shows "\<exists>g ep opp. g \<in> set gs \<and> enrichSinglePairWithTickers repos g = Some ep \<and>
           opp \<in> set (findOpportunitiesInSinglePair cfg ep) \<and>
           validateSingleOpportunity repos opp = Some opp'"
proof -
  from assms have "opp' \<in> set (yields (streamOpportunities repos cfg gs))"
    by (simp add: Yield_mem_iff)
  then obtain g where g: "g \<in> set gs" and "opp' \<in> set (validated repos (candidates repos cfg g))"
    by (auto simp: yields_stream)
  then obtain opp where opp: "opp \<in> set (candidates repos cfg g)"
    and v: "validateSingleOpportunity repos opp = Some opp'"
    by (auto simp: validated_def split: option.splits)
  from opp obtain ep where "enrichSinglePairWithTickers repos g = Some ep"
    and "opp \<in> set (findOpportunitiesInSinglePair cfg ep)"
    by (cases "enrichSinglePairWithTickers repos g") (auto simp: candidates_def)
  with g v show ?thesis by blast
qed

lemma delays_append: "delays (xs @ ys) = delays xs @ delays ys"
  by (simp add: delays_def)

lemma delays_map_Yield: "delays (map Yield opps) = []"
  unfolding delays_def by (induction opps) simp_all

lemma delays_group_step:
  "delays (group_step repos cfg g) = (if candidates repos cfg g = [] then [] else [30])"
  by (simp add: group_step_eq delays_append delays_map_Yield) (simp add: delays_def)

lemma delays_concat: "delays (concat xss) = concat (map delays xss)"
  by (induction xss) (simp_all add: delays_append, simp add: delays_def)

lemma delays_Progress: "delays (Progress s a b # tr) = delays tr"
  by (simp add: delays_def)

lemma concat_map_if_replicate:
  "concat (map (\<lambda>x. if P x then [] else [c]) xs) = replicate (length (filter (\<lambda>x. \<not> P x) xs)) c"
  by (induction xs) simp_all

lemma delays_stream:
  "delays (streamOpportunities repos cfg gs) =
     replicate (length (filter (\<lambda>g. candidates repos cfg g \<noteq> []) gs)) 30"
proof -
  have "delays (stream_loop repos cfg gs 0) =
      concat (map (\<lambda>k. if candidates repos cfg (gs ! k) = [] then [] else [30]) [0..<length gs])"
    by (simp add: stream_loop_closed delays_concat o_def delays_Progress delays_group_step)
  also have "\<dots> = concat (map (\<lambda>g. if candidates repos cfg g = [] then [] else [30]) gs)"
    using map_index [of "\<lambda>g. if candidates repos cfg g = [] then [] else [30::nat]" gs] by simp
  also have "\<dots> = replicate (length (filter (\<lambda>g. candidates repos cfg g \<noteq> []) gs)) 30"
    by (rule concat_map_if_replicate)
  finally show ?thesis
    by (simp add: streamOpportunities_def delays_append) (simp add: delays_def)
qed

subsection \<open>The example inputs evaluated\<close>

lemmas fl_eval = fl_def ilog2_def log2_up.simps log2_down.simps round_even_def pow2_def Let_def

lemmas loop_simps = inner_loop.simps outer_loop.simps


lemma find_both_directions: "findOpportunitiesInSinglePair cfgA enrichedB = [oppXY, oppYX]"
  by (simp add: findOpportunitiesInSinglePair_def enrichedB_def cfgA_def tickerU_def tickerV_def
      oppXY_def oppYX_def loop_simps pair_step_def grossProfitPercentage_def toFixed4_def fl_eval)

lemmas lookup_defs = status_lookups_def call_getAssetStatus_def map_get_def baseAsset_of_def
  quoteAsset_of_def at_index_def

lemma lookups_A:
  "status_lookups repos1 oppA =
     [Resolved (Some statusX), Resolved None, Resolved (Some statusY), Resolved None]"
  by (simp add: lookup_defs repos1_def repoX_def repoY_def oppA_def)

lemma validate_A: "validateSingleOpportunity repos1 oppA = Some validA"
  unfolding validate_resolved [OF lookups_A]
  by (simp add: attach_validation_eq validA_def can_withdraw_of_def can_deposit_of_def
      withdraw_of_def deposit_of_def assetInfo_or_null_def statusX_def statusY_def)

lemma lookups_XZ: "Rejected \<in> set (status_lookups repos1 oppXZ)"
  by (simp add: lookup_defs repos1_def repoX_def repoDown_def oppXZ_def oppA_def)

lemma lookups_XN:
  "status_lookups repos1 oppXN =
     [Resolved (Some statusX), Resolved None, Resolved None, Resolved None]"
  by (simp add: lookup_defs repos1_def repoX_def repoSoft_def oppXN_def oppA_def)

lemmas member_defs = memberX_def memberY_def memberZ_def memberN_def pairAX_def pairAY_def
  pairAZ_def pairAN_def pairBX_def pairBY_def

lemma calls_world:
  "call_fetchTicker repos1 memberX = Resolved (Some tickerX)"
  "call_fetchTicker repos1 memberY = Resolved (Some tickerY)"
  "call_fetchTicker repos1 memberZ = Rejected"
  "call_fetchTicker repos1 memberN = Resolved None"
  by (simp_all add: call_fetchTicker_def map_get_def repos1_def repoX_def repoY_def repoDown_def
      repoSoft_def member_defs)

lemma member_names:
  "member_name memberX = ''X''" "member_name memberY = ''Y''"
  "member_name memberZ = ''Z''" "member_name memberN = ''N''"
  by (simp_all add: member_defs)

lemma enrich_XYZ: "enrichSinglePairWithTickers repos1 groupXYZ = None"
  by (simp add: enrichSinglePairWithTickers_def groupXYZ_def calls_world)

lemma usable_XYN: "usable_tickers repos1 (exchanges groupXYN) = [(''X'', tickerX), (''Y'', tickerY)]"
  by (simp add: usable_tickers_def groupXYN_def calls_world member_names)

lemma usable_XN: "usable_tickers repos1 (exchanges groupXN) = [(''X'', tickerX)]"
  by (simp add: usable_tickers_def groupXN_def calls_world member_names)

lemma enrich_XY: "enrichSinglePairWithTickers repos1 groupXY = Some enrichedXY"
  by (simp add: enrichSinglePairWithTickers_def groupXY_def enrichedXY_def calls_world
      collect_valid_def put_ticker_def member_names)

lemma calls_B:
  "call_fetchTicker repos1 \<lparr>member_name = ''X'', pairData = pairBX\<rparr> = Resolved None"
  "call_fetchTicker repos1 \<lparr>member_name = ''Y'', pairData = pairBY\<rparr> = Resolved None"
  by (simp_all add: call_fetchTicker_def map_get_def repos1_def repoX_def repoY_def member_defs)

lemma enrich_B: "enrichSinglePairWithTickers repos1 groupB = None"
  by (simp add: enrichSinglePairWithTickers_def groupB_def calls_B collect_valid_def
      put_ticker_def)

lemma find_XY: "findOpportunitiesInSinglePair cfgA enrichedXY = [oppA]"
  by (simp add: findOpportunitiesInSinglePair_def enrichedXY_def cfgA_def tickerX_def tickerY_def
      oppA_def loop_simps pair_step_def grossProfitPercentage_def toFixed4_def fl_eval)

lemma trace_B_XY:
  "streamOpportunities repos1 cfgA [groupB, groupXY] =
     [Progress ''BBB/USDT'' 1 2, Progress ''AAA/USDT'' 2 2, Yield validA, Delay 30,
      ClearLine, CursorTo 0, Completed 2]"
  by (simp add: streamOpportunities_def stream_loop.simps group_step_def enrich_XY enrich_B
      find_XY validate_each_def validate_A) (simp add: groupB_def groupXY_def)

text \<open>
  Buying at 100 and selling at 129 with threshold 29: the quotient 0.29 is not a double,
  the computed spread is 28.999999999999996, and nothing is emitted. Buying at 2000000
  and selling at 2000007 with threshold 0: the computed spread is just below 0.00035 and
  is stored as the double nearest to 0.0003.
\<close>

lemma spread_129_over_100:
  "grossProfitPercentage ticker100 ticker129 = Finite (8162774324609023 / 2 ^ 48) \<and>
   findOpportunitiesInSinglePair cfg29 enriched29 = []"
  by (simp add: findOpportunitiesInSinglePair_def enriched29_def cfg29_def ticker100_def
      ticker129_def loop_simps pair_step_def grossProfitPercentage_def fl_eval)

lemma spread_2000007_over_2000000:
  "grossProfitPercentage tickerM tickerM7 = Finite (6456360425798343 / 2 ^ 64) \<and>
   findOpportunitiesInSinglePair cfgZ enrichedM = [oppM]"
  by (simp add: findOpportunitiesInSinglePair_def enrichedM_def cfgZ_def tickerM_def
      tickerM7_def oppM_def loop_simps pair_step_def grossProfitPercentage_def toFixed4_def
      fl_eval)

lemmas resolver_defs = shared_groups_def all_listings_def first_seen_def members_of_def
  member_symbol_def

section \<open>The claims\<close>

subsection \<open>C1: invariants of emitted opportunities\<close>




subsection \<open>C2: the validation record\<close>

text \<open>
  Claim C2. Whenever the validator returns an opportunity, a validation record is
  attached to it; its \<open>commonNetworks\<close> are the withdrawal networks the buy source
  reports for the base asset that the sell source lists among its deposit networks for
  the base asset, in the buy source's order (as a set, the intersection of the two); and
  \<open>isExecutable\<close> holds exactly when the buy source's \<open>canWithdraw\<close> and the sell source's
  \<open>canDeposit\<close> are true and \<open>commonNetworks\<close> is not empty. A status that is \<open>null\<close>
  counts as no networks and as \<open>false\<close>.
\<close>

theorem validation_record_invariants:
  assumes "validateSingleOpportunity repos opp = Some opp'"
  shows "\<exists>v bb sb.
      validation opp' = Some v \<and>
      call_getAssetStatus (map_get repos (leg_exchange (buyAt opp))) (baseAsset_of opp) = Resolved bb \<and>
      call_getAssetStatus (map_get repos (leg_exchange (sellAt opp))) (baseAsset_of opp) = Resolved sb \<and>
      commonNetworks v = filter (\<lambda>net. net \<in> set (deposit_of sb)) (withdraw_of bb) \<and>
      set (commonNetworks v) = set (withdraw_of bb) \<inter> set (deposit_of sb) \<and>
      isExecutable v = (can_withdraw_of bb \<and> can_deposit_of sb \<and> commonNetworks v \<noteq> []) \<and>
      buy_canWithdraw (buyExchange v) = can_withdraw_of bb \<and>
      sell_canDeposit (sellExchange v) = can_deposit_of sb"
proof (cases rule: status_lookups_cases [of repos opp])
  case 1
  then show ?thesis
    using assms by (simp add: validate_rejected)
next
  case (2 bb bq sb sq)
  then have o: "opp' = attach_validation opp bb bq sb sq"
    using assms by (simp add: validate_resolved)
  from 2 have b: "call_getAssetStatus (map_get repos (leg_exchange (buyAt opp))) (baseAsset_of opp) = Resolved bb"
    and s: "call_getAssetStatus (map_get repos (leg_exchange (sellAt opp))) (baseAsset_of opp) = Resolved sb"
    by (simp_all add: status_lookups_def)
  have i: "set (filter (\<lambda>net. net \<in> set (deposit_of sb)) (withdraw_of bb)) =
      set (withdraw_of bb) \<inter> set (deposit_of sb)"
    by auto
  show ?thesis
    unfolding o attach_validation_eq using b s i by simp
qed

text \<open>
  Scenario D: X withdraws over ERC20, Y accepts ERC20 and TRC20; the candidate of scenario
  A is executable over ERC20.
\<close>

theorem validation_record_invariants_witness:
  "validateSingleOpportunity repos1 oppA = Some validA \<and>
   (\<exists>v. validation validA = Some v \<and> commonNetworks v = [''ERC20''] \<and> isExecutable v)"
proof -
  from validation_record_invariants [OF validate_A] obtain v bb sb where
    v: "validation validA = Some v"
    and b: "call_getAssetStatus (map_get repos1 (leg_exchange (buyAt oppA))) (baseAsset_of oppA) = Resolved bb"
    and s: "call_getAssetStatus (map_get repos1 (leg_exchange (sellAt oppA))) (baseAsset_of oppA) = Resolved sb"
    and c: "commonNetworks v = filter (\<lambda>net. net \<in> set (deposit_of sb)) (withdraw_of bb)"
    and e: "isExecutable v = (can_withdraw_of bb \<and> can_deposit_of sb \<and> commonNetworks v \<noteq> [])"
    by blast
  from b have bb: "bb = Some statusX"
    by (simp add: lookup_defs repos1_def repoX_def oppA_def)
  from s have sb: "sb = Some statusY"
    by (simp add: lookup_defs repos1_def repoY_def oppA_def)
  have c': "commonNetworks v = [''ERC20'']"
    unfolding c bb sb by (simp add: deposit_of_def withdraw_of_def statusX_def statusY_def)
  have "isExecutable v"
    unfolding e c' bb sb by (simp add: can_withdraw_of_def can_deposit_of_def statusX_def statusY_def)
  with v c' validate_A show ?thesis by blast
qed

subsection \<open>C3: what the spread detector emits\<close>

text \<open>
  Claim C3, as the code has it, in the double arithmetic of the program. For an ordered
  pair \<open>(i, j)\<close> of distinct entries of the ticker map, buy entry \<open>i\<close> and sell entry
  \<open>j\<close>: when \<open>ask > 0\<close>, \<open>bid > ask\<close> and the spread the code computes,
  \<open>(bid - ask) / ask * 100\<close> with each operation rounded to a double, is at least
  \<open>minProfitPercentage\<close>, the opportunity with these two legs and that spread rounded to
  four decimals is emitted. With a positive threshold the second guard follows from the
  third, since the rounded operations keep the sign of \<open>bid - ask\<close>, and \<open>ask > 0\<close>
  with the test on the computed spread is enough. The step for \<open>(i, j)\<close> appends that
  opportunity or nothing, and reads only the entries \<open>i\<close> and \<open>j\<close>: what \<open>(j, i)\<close>
  does has no part in it.
\<close>

theorem pair_step_emits:
  assumes "i < length (tickers ep)" and "j < length (tickers ep)" and "i \<noteq> j"
    and "tickers ep ! i = (buySource, buyTicker)"
    and "tickers ep ! j = (sellSource, sellTicker)"
  shows
    "(js_gt (ask buyTicker) (Finite 0) \<and> js_gt (bid sellTicker) (ask buyTicker) \<and>
      js_ge (js_mul (js_div (js_sub (bid sellTicker) (ask buyTicker)) (ask buyTicker))
               (Finite 100))
        (minProfitPercentage cfg) \<longrightarrow>
        \<lparr>pair = sp_symbol ep,
         profitPercentage =
           toFixed4 (js_mul (js_div (js_sub (bid sellTicker) (ask buyTicker)) (ask buyTicker))
                       (Finite 100)),
         buyAt = \<lparr>leg_exchange = buySource, leg_price = ask buyTicker\<rparr>,
         sellAt = \<lparr>leg_exchange = sellSource, leg_price = bid sellTicker\<rparr>,
         validation = None\<rparr> \<in> set (findOpportunitiesInSinglePair cfg ep)) \<and>
     (js_gt (minProfitPercentage cfg) (Finite 0) \<and> js_gt (ask buyTicker) (Finite 0) \<and>
      js_ge (js_mul (js_div (js_sub (bid sellTicker) (ask buyTicker)) (ask buyTicker))
               (Finite 100))
        (minProfitPercentage cfg) \<longrightarrow>
        \<lparr>pair = sp_symbol ep,
         profitPercentage =
           toFixed4 (js_mul (js_div (js_sub (bid sellTicker) (ask buyTicker)) (ask buyTicker))
                       (Finite 100)),
         buyAt = \<lparr>leg_exchange = buySource, leg_price = ask buyTicker\<rparr>,
         sellAt = \<lparr>leg_exchange = sellSource, leg_price = bid sellTicker\<rparr>,
         validation = None\<rparr> \<in> set (findOpportunitiesInSinglePair cfg ep)) \<and>
     pair_step cfg (sp_symbol ep) (tickers ep) i j opps =
       (if js_gt (ask buyTicker) (Finite 0) \<and> js_gt (bid sellTicker) (ask buyTicker) \<and>
           js_ge (js_mul (js_div (js_sub (bid sellTicker) (ask buyTicker)) (ask buyTicker))
                    (Finite 100))
             (minProfitPercentage cfg)
        then opps @
          [\<lparr>pair = sp_symbol ep,
            profitPercentage =
              toFixed4 (js_mul (js_div (js_sub (bid sellTicker) (ask buyTicker)) (ask buyTicker))
                          (Finite 100)),
            buyAt = \<lparr>leg_exchange = buySource, leg_price = ask buyTicker\<rparr>,
            sellAt = \<lparr>leg_exchange = sellSource, leg_price = bid sellTicker\<rparr>,
            validation = None\<rparr>]
        else opps)"
proof -
  let ?g = "js_mul (js_div (js_sub (bid sellTicker) (ask buyTicker)) (ask buyTicker)) (Finite 100)"
  let ?opp = "\<lparr>pair = sp_symbol ep, profitPercentage = toFixed4 ?g,
         buyAt = \<lparr>leg_exchange = buySource, leg_price = ask buyTicker\<rparr>,
         sellAt = \<lparr>leg_exchange = sellSource, leg_price = bid sellTicker\<rparr>,
         validation = None\<rparr>"
  let ?fires = "js_gt (ask buyTicker) (Finite 0) \<and> js_gt (bid sellTicker) (ask buyTicker) \<and>
      js_ge ?g (minProfitPercentage cfg)"
  have cand: "candidate cfg (sp_symbol ep) (tickers ep ! i) (tickers ep ! j) = ?opp"
    by (simp add: candidate_def assms(4,5) grossProfitPercentage_def)
  have fires_eq: "fires cfg (snd (tickers ep ! i)) (snd (tickers ep ! j)) \<longleftrightarrow> ?fires"
    by (simp add: fires_def assms(4,5) grossProfitPercentage_def)
  have mem: "?opp \<in> set (findOpportunitiesInSinglePair cfg ep)" if "?fires"
    unfolding find_mem_iff using that assms(1-3) fires_eq cand by metis
  have implied: "js_gt (bid sellTicker) (ask buyTicker)"
    if m: "js_gt (minProfitPercentage cfg) (Finite 0)" and a: "js_gt (ask buyTicker) (Finite 0)"
      and g: "js_ge ?g (minProfitPercentage cfg)"
  proof (rule ccontr)
    assume "\<not> js_gt (bid sellTicker) (ask buyTicker)"
    then have "\<not> js_gt ?g (Finite 0)"
      using a by (intro gross_nonpos)
    then show False
      using js_ge_gt_trans [OF g m] by simp
  qed
  have step: "pair_step cfg (sp_symbol ep) (tickers ep) i j opps =
       (if ?fires then opps @ [?opp] else opps)"
    using assms(3) by (simp add: pair_step_def assms(4,5) grossProfitPercentage_def)
  from mem implied step show ?thesis
    by blast
qed

text \<open>
  Both directions fire: X asks 100 and bids 110, Y asks 101 and bids 111, threshold 0.5.
  Buying on X the computed spread is 11 and is stored as 11; buying on Y it is
  8.91089108910891 and is stored as the double nearest to 8.9109.
\<close>

theorem pair_step_emits_witness:
  "0 < length (tickers enrichedB) \<and> 1 < length (tickers enrichedB) \<and>
   tickers enrichedB ! 0 = (''X'', tickerU) \<and> tickers enrichedB ! 1 = (''Y'', tickerV) \<and>
   js_gt (minProfitPercentage cfgA) (Finite 0) \<and>
   js_gt (ask tickerU) (Finite 0) \<and> js_gt (bid tickerV) (ask tickerU) \<and>
   js_ge (js_mul (js_div (js_sub (bid tickerV) (ask tickerU)) (ask tickerU)) (Finite 100))
     (minProfitPercentage cfgA) \<and>
   js_gt (ask tickerV) (Finite 0) \<and> js_gt (bid tickerU) (ask tickerV) \<and>
   js_ge (js_mul (js_div (js_sub (bid tickerU) (ask tickerV)) (ask tickerV)) (Finite 100))
     (minProfitPercentage cfgA) \<and>
   oppXY \<in> set (findOpportunitiesInSinglePair cfgA enrichedB) \<and>
   oppYX \<in> set (findOpportunitiesInSinglePair cfgA enrichedB)"
proof -
  have n: "0 < length (tickers enrichedB)" "1 < length (tickers enrichedB)"
    by (simp_all add: enrichedB_def)
  have x: "tickers enrichedB ! 0 = (''X'', tickerU)" and y: "tickers enrichedB ! 1 = (''Y'', tickerV)"
    by (simp_all add: enrichedB_def)
  have gxy: "js_mul (js_div (js_sub (bid tickerV) (ask tickerU)) (ask tickerU)) (Finite 100) =
      Finite 11"
    by (simp add: tickerU_def tickerV_def fl_eval)
  have gyx: "js_mul (js_div (js_sub (bid tickerU) (ask tickerV)) (ask tickerV)) (Finite 100) =
      Finite (5016385723556245 / 2 ^ 49)"
    by (simp add: tickerU_def tickerV_def fl_eval)
  have rxy: "toFixed4 (Finite 11) = Finite 11"
    by (simp add: toFixed4_def fl_eval)
  have ryx: "toFixed4 (Finite (5016385723556245 / 2 ^ 49)) = Finite (5016390739941969 / 2 ^ 49)"
    by (simp add: toFixed4_def fl_eval)
  have xy: "js_gt (ask tickerU) (Finite 0) \<and> js_gt (bid tickerV) (ask tickerU) \<and>
      js_ge (js_mul (js_div (js_sub (bid tickerV) (ask tickerU)) (ask tickerU)) (Finite 100))
        (minProfitPercentage cfgA)"
    unfolding gxy by (simp add: tickerU_def tickerV_def cfgA_def)
  have yx: "js_gt (ask tickerV) (Finite 0) \<and> js_gt (bid tickerU) (ask tickerV) \<and>
      js_ge (js_mul (js_div (js_sub (bid tickerU) (ask tickerV)) (ask tickerV)) (Finite 100))
        (minProfitPercentage cfgA)"
    unfolding gyx by (simp add: tickerU_def tickerV_def cfgA_def)
  have m: "js_gt (minProfitPercentage cfgA) (Finite 0)"
    by (simp add: cfgA_def)
  have sb: "sp_symbol enrichedB = ''AAA/USDT''"
    by (simp add: enrichedB_def)
  have "oppXY \<in> set (findOpportunitiesInSinglePair cfgA enrichedB)"
    using pair_step_emits [OF n(1) n(2) _ x y, of cfgA "[]"] xy
    unfolding gxy rxy sb by (simp add: oppXY_def tickerU_def tickerV_def)
  moreover have "oppYX \<in> set (findOpportunitiesInSinglePair cfgA enrichedB)"
    using pair_step_emits [OF n(2) n(1) _ y x, of cfgA "[]"] yx
    unfolding gyx ryx sb by (simp add: oppYX_def tickerU_def tickerV_def)
  ultimately show ?thesis
    using n x y xy yx m by simp
qed

text \<open>
  Claim C3 as stated fails. With threshold 0 and X and Y both quoting bid 100 and ask
  100, the ask is positive and the computed spread 0 reaches the threshold, yet nothing is
  emitted: the guard \<open>sellTicker.bid > buyTicker.ask\<close> skips the pair.
\<close>

theorem equal_prices_not_emitted:
  "tickers enrichedZ ! 0 = (''X'', tickerS) \<and> tickers enrichedZ ! 1 = (''Y'', tickerT) \<and>
   js_gt (ask tickerS) (Finite 0) \<and>
   js_ge (js_mul (js_div (js_sub (bid tickerT) (ask tickerS)) (ask tickerS)) (Finite 100))
     (minProfitPercentage cfgZ) \<and>
   findOpportunitiesInSinglePair cfgZ enrichedZ = []"
  by (simp add: findOpportunitiesInSinglePair_def enrichedZ_def cfgZ_def tickerS_def tickerT_def
      loop_simps pair_step_def grossProfitPercentage_def fl_eval)

subsection \<open>C4: the enrichment policy\<close>

text \<open>
  Claim C4, as the code has it. A request that rejects or throws discards the whole
  group. When every request resolves, a request that resolves with no ticker only leaves
  its source out: the group is discarded exactly when fewer than 2 distinct sources have a
  usable ticker, and otherwise the enriched group keeps the symbol and the members and
  maps exactly the sources with a usable ticker; for members with pairwise distinct source
  names (then the number of usable tickers is the number of such sources) the map is the
  usable tickers themselves, in member order.
\<close>

theorem enrichment_policy:
  "(Rejected \<in> call_fetchTicker repos ` set (exchanges g) \<longrightarrow>
      enrichSinglePairWithTickers repos g = None) \<and>
   (Rejected \<notin> call_fetchTicker repos ` set (exchanges g) \<and>
    card (fst ` set (usable_tickers repos (exchanges g))) < 2 \<longrightarrow>
      enrichSinglePairWithTickers repos g = None) \<and>
   (Rejected \<notin> call_fetchTicker repos ` set (exchanges g) \<and>
    2 \<le> card (fst ` set (usable_tickers repos (exchanges g))) \<longrightarrow>
      (\<exists>ep. enrichSinglePairWithTickers repos g = Some ep \<and>
            sp_symbol ep = sp_symbol g \<and> exchanges ep = exchanges g \<and>
            fst ` set (tickers ep) = fst ` set (usable_tickers repos (exchanges g)) \<and>
            (distinct (map member_name (exchanges g)) \<longrightarrow>
               tickers ep = usable_tickers repos (exchanges g)))) \<and>
   (distinct (map member_name (exchanges g)) \<longrightarrow>
      card (fst ` set (usable_tickers repos (exchanges g))) =
        length (usable_tickers repos (exchanges g)))"
proof (intro conjI impI)
  assume "Rejected \<in> call_fetchTicker repos ` set (exchanges g)"
  then show "enrichSinglePairWithTickers repos g = None"
    by (rule enrich_rejected)
next
  assume a: "Rejected \<notin> call_fetchTicker repos ` set (exchanges g) \<and>
    card (fst ` set (usable_tickers repos (exchanges g))) < 2"
  then show "enrichSinglePairWithTickers repos g = None"
    using enrich_resolved [of repos g] by auto
next
  assume a: "Rejected \<notin> call_fetchTicker repos ` set (exchanges g) \<and>
    2 \<le> card (fst ` set (usable_tickers repos (exchanges g)))"
  then obtain results
    where r: "promise_all (map (call_fetchTicker repos) (exchanges g)) = Resolved results"
      and e: "enrichSinglePairWithTickers repos g =
        Some \<lparr>sp_symbol = sp_symbol g, exchanges = exchanges g,
               tickers = collect_valid (exchanges g) results\<rparr>"
    using enrich_resolved [of repos g] by auto
  show "\<exists>ep. enrichSinglePairWithTickers repos g = Some ep \<and>
            sp_symbol ep = sp_symbol g \<and> exchanges ep = exchanges g \<and>
            fst ` set (tickers ep) = fst ` set (usable_tickers repos (exchanges g)) \<and>
            (distinct (map member_name (exchanges g)) \<longrightarrow>
               tickers ep = usable_tickers repos (exchanges g))"
    unfolding e
    using collect_valid_keys [OF r] collect_valid_distinct_names [OF r] by simp
next
  assume "distinct (map member_name (exchanges g))"
  then have "distinct (map fst (usable_tickers repos (exchanges g)))"
    by (rule usable_distinct)
  then have "card (set (map fst (usable_tickers repos (exchanges g)))) =
      length (map fst (usable_tickers repos (exchanges g)))"
    by (rule distinct_card)
  then show "card (fst ` set (usable_tickers repos (exchanges g))) =
        length (usable_tickers repos (exchanges g))"
    by simp
qed

text \<open>
  Z rejects and takes the group X, Y, Z down; X alone with the silent N is not enough; X
  and Y with the silent N give the group enriched with the tickers of X and Y.
\<close>

theorem enrichment_policy_witness:
  "Rejected \<in> call_fetchTicker repos1 ` set (exchanges groupXYZ) \<and>
   enrichSinglePairWithTickers repos1 groupXYZ = None \<and>
   Rejected \<notin> call_fetchTicker repos1 ` set (exchanges groupXN) \<and>
   card (fst ` set (usable_tickers repos1 (exchanges groupXN))) < 2 \<and>
   enrichSinglePairWithTickers repos1 groupXN = None \<and>
   Rejected \<notin> call_fetchTicker repos1 ` set (exchanges groupXYN) \<and>
   2 \<le> card (fst ` set (usable_tickers repos1 (exchanges groupXYN))) \<and>
   distinct (map member_name (exchanges groupXYN)) \<and>
   call_fetchTicker repos1 memberN = Resolved None \<and>
   enrichSinglePairWithTickers repos1 groupXYN = Some enrichedXYN"
proof -
  have z: "Rejected \<in> call_fetchTicker repos1 ` set (exchanges groupXYZ)"
    by (simp add: groupXYZ_def calls_world)
  have n1: "Rejected \<notin> call_fetchTicker repos1 ` set (exchanges groupXN)"
    by (simp add: groupXN_def calls_world)
  have c1: "card (fst ` set (usable_tickers repos1 (exchanges groupXN))) < 2"
    by (simp add: usable_XN)
  have n2: "Rejected \<notin> call_fetchTicker repos1 ` set (exchanges groupXYN)"
    by (simp add: groupXYN_def calls_world)
  have c2: "2 \<le> card (fst ` set (usable_tickers repos1 (exchanges groupXYN)))"
    by (simp add: usable_XYN)
  have d: "distinct (map member_name (exchanges groupXYN))"
    by (simp add: groupXYN_def member_defs)
  note pol = enrichment_policy [of repos1]
  have r1: "enrichSinglePairWithTickers repos1 groupXYZ = None"
    using pol [of groupXYZ] z by blast
  have r2: "enrichSinglePairWithTickers repos1 groupXN = None"
    using pol [of groupXN] n1 c1 by blast
  from pol [of groupXYN] n2 c2 d obtain ep
    where e: "enrichSinglePairWithTickers repos1 groupXYN = Some ep"
      and f: "sp_symbol ep = sp_symbol groupXYN" "exchanges ep = exchanges groupXYN"
        "tickers ep = usable_tickers repos1 (exchanges groupXYN)"
    by blast
  have "tickers ep = [(''X'', tickerX), (''Y'', tickerY)]"
    using f(3) by (simp only: usable_XYN)
  with f(1,2) have "ep = enrichedXYN"
    by (cases ep) (simp add: enrichedXYN_def groupXYN_def)
  with e z n1 c1 n2 c2 d r1 r2 calls_world(4) show ?thesis
    by simp
qed

text \<open>
  Claim C4 as stated fails. In the group X, Y, Z the request to Z fails by rejecting and
  the two other sources return usable tickers, yet no enriched group is produced:
  \<open>Promise.all\<close> rejects and the \<open>catch\<close> returns \<open>null\<close>.
\<close>

theorem rejected_request_discards_group:
  "call_fetchTicker repos1 memberX = Resolved (Some tickerX) \<and>
   call_fetchTicker repos1 memberY = Resolved (Some tickerY) \<and>
   call_fetchTicker repos1 memberZ = Rejected \<and>
   exchanges groupXYZ = [memberX, memberY, memberZ] \<and>
   enrichSinglePairWithTickers repos1 groupXYZ = None"
  by (simp add: calls_world enrich_XYZ) (simp add: groupXYZ_def)

subsection \<open>C5: the validator fails closed\<close>

text \<open>
  Claim C5. If any of the four status lookups rejects or throws, the validator returns
  nothing; it returns nothing only then. If all four resolve, \<open>null\<close> results included,
  the candidate is returned with a full validation record in which \<open>canWithdraw\<close> and
  \<open>canDeposit\<close> are the flags of the two base-asset statuses, \<open>false\<close> for a status that
  is \<open>null\<close>, and in that case the candidate is not executable.
\<close>

theorem validator_fail_closed:
  "(Rejected \<in> set (status_lookups repos opp) \<longrightarrow> validateSingleOpportunity repos opp = None) \<and>
   (validateSingleOpportunity repos opp = None \<longrightarrow> Rejected \<in> set (status_lookups repos opp)) \<and>
   (status_lookups repos opp = [Resolved bb, Resolved bq, Resolved sb, Resolved sq] \<longrightarrow>
      (\<exists>v. validateSingleOpportunity repos opp = Some (opp\<lparr>validation := Some v\<rparr>) \<and>
           buy_canWithdraw (buyExchange v) = (case bb of None \<Rightarrow> False | Some s \<Rightarrow> canWithdraw s) \<and>
           sell_canDeposit (sellExchange v) = (case sb of None \<Rightarrow> False | Some s \<Rightarrow> canDeposit s) \<and>
           buy_withdrawNetworks (buyExchange v) = map_option withdrawNetworks bb \<and>
           sell_depositNetworks (sellExchange v) = map_option depositNetworks sb \<and>
           (bb = None \<or> sb = None \<longrightarrow> \<not> isExecutable v \<and> commonNetworks v = [])))"
proof (intro conjI impI)
  assume "Rejected \<in> set (status_lookups repos opp)"
  then show "validateSingleOpportunity repos opp = None"
    by (rule validate_rejected)
next
  assume "validateSingleOpportunity repos opp = None"
  then show "Rejected \<in> set (status_lookups repos opp)"
    by (simp add: validate_None_iff)
next
  assume a: "status_lookups repos opp = [Resolved bb, Resolved bq, Resolved sb, Resolved sq]"
  have e: "bb = None \<or> sb = None \<Longrightarrow>
      filter (\<lambda>net. net \<in> set (deposit_of sb)) (withdraw_of bb) = []"
    by (auto simp: deposit_of_def withdraw_of_def)
  show "\<exists>v. validateSingleOpportunity repos opp = Some (opp\<lparr>validation := Some v\<rparr>) \<and>
           buy_canWithdraw (buyExchange v) = (case bb of None \<Rightarrow> False | Some s \<Rightarrow> canWithdraw s) \<and>
           sell_canDeposit (sellExchange v) = (case sb of None \<Rightarrow> False | Some s \<Rightarrow> canDeposit s) \<and>
           buy_withdrawNetworks (buyExchange v) = map_option withdrawNetworks bb \<and>
           sell_depositNetworks (sellExchange v) = map_option depositNetworks sb \<and>
           (bb = None \<or> sb = None \<longrightarrow> \<not> isExecutable v \<and> commonNetworks v = [])"
    unfolding validate_resolved [OF a] attach_validation_eq
    using e by (auto simp: can_withdraw_of_def can_deposit_of_def)
qed

text \<open>
  Selling on Z, whose lookups reject, drops the candidate; selling on N, whose lookups
  resolve with \<open>null\<close>, keeps it with \<open>canDeposit = false\<close> and no common network.
\<close>

theorem validator_fail_closed_witness:
  "Rejected \<in> set (status_lookups repos1 oppXZ) \<and>
   validateSingleOpportunity repos1 oppXZ = None \<and>
   status_lookups repos1 oppXN =
     [Resolved (Some statusX), Resolved None, Resolved None, Resolved None] \<and>
   (\<exists>v. validateSingleOpportunity repos1 oppXN = Some (oppXN\<lparr>validation := Some v\<rparr>) \<and>
        buy_canWithdraw (buyExchange v) \<and> \<not> sell_canDeposit (sellExchange v) \<and>
        sell_depositNetworks (sellExchange v) = None \<and> \<not> isExecutable v \<and>
        commonNetworks v = [])"
proof -
  have 1: "validateSingleOpportunity repos1 oppXZ = None"
    using validator_fail_closed [of repos1 oppXZ] lookups_XZ by blast
  have "\<exists>v. validateSingleOpportunity repos1 oppXN = Some (oppXN\<lparr>validation := Some v\<rparr>) \<and>
        buy_canWithdraw (buyExchange v) = canWithdraw statusX \<and>
        sell_canDeposit (sellExchange v) = False \<and>
        buy_withdrawNetworks (buyExchange v) = Some (withdrawNetworks statusX) \<and>
        sell_depositNetworks (sellExchange v) = None \<and>
        \<not> isExecutable v \<and> commonNetworks v = []"
    using validator_fail_closed [of repos1 oppXN "Some statusX" None None None] lookups_XN
    by simp
  then have 2: "\<exists>v. validateSingleOpportunity repos1 oppXN = Some (oppXN\<lparr>validation := Some v\<rparr>) \<and>
        buy_canWithdraw (buyExchange v) \<and> \<not> sell_canDeposit (sellExchange v) \<and>
        sell_depositNetworks (sellExchange v) = None \<and> \<not> isExecutable v \<and>
        commonNetworks v = []"
    by (auto simp: statusX_def)
  from 1 2 lookups_XZ lookups_XN show ?thesis by blast
qed

subsection \<open>C6: groups and their sources\<close>

text \<open>
  Claim C6 at a source that lists one symbol twice. The only source X lists AAA/USDT
  twice; the symbol is seen on exactly one source, and a group with two members, both on
  X, is emitted for it: the resolver counts the members of a symbol, not their sources.
\<close>

theorem single_source_group:
  "findSharedPairs cfgA dataDup = [groupDup] \<and>
   map name dataDup = [''X''] \<and>
   map member_name (exchanges groupDup) = [''X'', ''X'']"
  by (simp add: findSharedPairs_closed listings_def kept_def cfgA_def resolver_defs dataDup_def
      groupDup_def pairAX_def pairAX2_def)

subsection \<open>C7: the quote filter\<close>

text \<open>
  Claim C7. With a filter that is present and not empty, the pairs whose quote asset is
  not in the filter are dropped before grouping: the result is the grouping of the
  remaining listings, and every member of every group has its quote asset in the filter,
  however many sources list a dropped pair. With the filter absent or empty, every listing
  of every source is grouped.
\<close>

theorem quote_filter:
  "(quoteAssetsFilter cfg = Some f \<and> f \<noteq> [] \<longrightarrow>
      findSharedPairs cfg exchangeData =
        shared_groups (filter (\<lambda>m. quote (pairData m) \<in> set f) (all_listings exchangeData)) \<and>
      (\<forall>g \<in> set (findSharedPairs cfg exchangeData). \<forall>m \<in> set (exchanges g).
         quote (pairData m) \<in> set f)) \<and>
   (quoteAssetsFilter cfg = None \<or> quoteAssetsFilter cfg = Some [] \<longrightarrow>
      findSharedPairs cfg exchangeData = shared_groups (all_listings exchangeData))"
proof (intro conjI impI)
  assume a: "quoteAssetsFilter cfg = Some f \<and> f \<noteq> []"
  then show eq: "findSharedPairs cfg exchangeData =
        shared_groups (filter (\<lambda>m. quote (pairData m) \<in> set f) (all_listings exchangeData))"
    by (simp add: findSharedPairs_closed listings_active)
  show "\<forall>g \<in> set (findSharedPairs cfg exchangeData). \<forall>m \<in> set (exchanges g).
         quote (pairData m) \<in> set f"
    unfolding eq using shared_groups_members by fastforce
next
  assume "quoteAssetsFilter cfg = None \<or> quoteAssetsFilter cfg = Some []"
  then show "findSharedPairs cfg exchangeData = shared_groups (all_listings exchangeData)"
    by (simp add: findSharedPairs_closed listings_inactive)
qed

text \<open>
  Scenario E: with the filter USDT, AAA/USDC on X and Y forms no group and AAA/USDT does;
  with no filter both symbols form a group, in first-seen order.
\<close>

theorem quote_filter_witness:
  "quoteAssetsFilter cfgE = Some [''USDT''] \<and>
   findSharedPairs cfgE dataE = [groupXY] \<and>
   quote pairCX \<notin> set [''USDT''] \<and>
   quoteAssetsFilter cfgA = None \<and>
   findSharedPairs cfgA dataE = [groupC, groupXY]"
proof -
  have e: "quoteAssetsFilter cfgE = Some [''USDT''] \<and> [''USDT''] \<noteq> []"
    by (simp add: cfgE_def)
  have a: "quoteAssetsFilter cfgA = None \<or> quoteAssetsFilter cfgA = Some []"
    by (simp add: cfgA_def)
  have 1: "findSharedPairs cfgE dataE =
      shared_groups (filter (\<lambda>m. quote (pairData m) \<in> set [''USDT'']) (all_listings dataE))"
    using quote_filter [of cfgE "[''USDT'']" dataE] e by blast
  have 2: "findSharedPairs cfgA dataE = shared_groups (all_listings dataE)"
    using quote_filter [of cfgA "[]" dataE] a by blast
  have 3: "findSharedPairs cfgE dataE = [groupXY]"
    unfolding 1
    by (simp add: resolver_defs dataE_def groupXY_def member_defs pairCX_def pairCY_def)
  have 4: "findSharedPairs cfgA dataE = [groupC, groupXY]"
    unfolding 2
    by (simp add: resolver_defs dataE_def groupXY_def groupC_def member_defs pairCX_def pairCY_def)
  from 3 4 show ?thesis
    by (simp add: cfgE_def cfgA_def pairCX_def)
qed

subsection \<open>C8: the delay between groups\<close>

text \<open>
  Claim C8, as the code has it. The trace of a run is, group after group in input order,
  the progress line of the group followed by what the group does, and then the final
  writes. A group with no price candidate (not enriched, or enriched with no spread above
  the threshold) does nothing more; a group with candidates yields those the validator
  returns and then waits 30 ms. So the run has one 30 ms delay for each group with at
  least one candidate, the last group included, and none for the other groups.
\<close>

theorem delay_policy:
  "streamOpportunities repos cfg gs =
     concat (map (\<lambda>k. Progress (sp_symbol (gs ! k)) (k + 1) (length gs) #
                        group_step repos cfg (gs ! k)) [0..<length gs]) @
       [ClearLine, CursorTo 0, Completed (length gs)] \<and>
   group_step repos cfg g =
     (if candidates repos cfg g = [] then []
      else map Yield (validated repos (candidates repos cfg g)) @ [Delay 30]) \<and>
   delays (streamOpportunities repos cfg gs) =
     replicate (length (filter (\<lambda>g. candidates repos cfg g \<noteq> []) gs)) 30"
proof (intro conjI)
  show "streamOpportunities repos cfg gs =
     concat (map (\<lambda>k. Progress (sp_symbol (gs ! k)) (k + 1) (length gs) #
                        group_step repos cfg (gs ! k)) [0..<length gs]) @
       [ClearLine, CursorTo 0, Completed (length gs)]"
    unfolding streamOpportunities_def stream_loop_closed ..
  show "group_step repos cfg g =
     (if candidates repos cfg g = [] then []
      else map Yield (validated repos (candidates repos cfg g)) @ [Delay 30])"
    by (rule group_step_eq)
  show "delays (streamOpportunities repos cfg gs) =
     replicate (length (filter (\<lambda>g. candidates repos cfg g \<noteq> []) gs)) 30"
    by (rule delays_stream)
qed

text \<open>
  Claim C8 as stated fails. Of two groups, the first (BBB/USDT, for which no source
  returns a ticker) is not enriched: the run goes on to the second group with no delay
  in between, and waits 30 ms after the second, which is the last.
\<close>

theorem no_delay_after_unenriched_group:
  "enrichSinglePairWithTickers repos1 groupB = None \<and>
   streamOpportunities repos1 cfgA [groupB, groupXY] =
     [Progress ''BBB/USDT'' 1 2, Progress ''AAA/USDT'' 2 2, Yield validA, Delay 30,
      ClearLine, CursorTo 0, Completed 2]"
  by (simp add: enrich_B trace_B_XY)

subsection \<open>C9: the order of the yielded opportunities\<close>

text \<open>
  Claim C9. The opportunities a run yields are, for each group in input order, the
  candidates of that group that the validator returns, in the order the spread detector
  produced them; the spread detector's output is what the steps \<open>(i, j)\<close> append, taken
  over all index pairs in ascending \<open>i\<close> and, for equal \<open>i\<close>, ascending \<open>j\<close>. Nothing is
  reordered.
\<close>

theorem yield_order:
  "yields (streamOpportunities repos cfg gs) =
     concat (map (\<lambda>g. validated repos (candidates repos cfg g)) gs) \<and>
   findOpportunitiesInSinglePair cfg ep =
     concat (map (\<lambda>(i, j). pair_step cfg (sp_symbol ep) (tickers ep) i j [])
       (enumeration (length (tickers ep)))) \<and>
   sorted_wrt before (enumeration n) \<and>
   set (enumeration n) = {(i, j). i < n \<and> j < n}"
  using yields_stream find_closed sorted_enumeration set_enumeration by blast

subsection \<open>C10: buy and sell sources differ\<close>

text \<open>
  Claim C10. The entries of a ticker map with pairwise distinct keys give only
  opportunities whose buy and sell sources differ; the map built by enrichment has
  pairwise distinct keys; so every opportunity the pipeline yields buys and sells on two
  different sources.
\<close>

theorem buy_and_sell_sources_differ:
  "(distinct (map fst (tickers ep)) \<and> opp \<in> set (findOpportunitiesInSinglePair cfg ep) \<longrightarrow>
      leg_exchange (buyAt opp) \<noteq> leg_exchange (sellAt opp)) \<and>
   (enrichSinglePairWithTickers repos g = Some ep' \<longrightarrow> distinct (map fst (tickers ep'))) \<and>
   (Yield opp' \<in> set (streamOpportunities repos cfg gs) \<longrightarrow>
      leg_exchange (buyAt opp') \<noteq> leg_exchange (sellAt opp'))"
proof (intro conjI impI)
  assume "distinct (map fst (tickers ep)) \<and> opp \<in> set (findOpportunitiesInSinglePair cfg ep)"
  then show "leg_exchange (buyAt opp) \<noteq> leg_exchange (sellAt opp)"
    using find_sources_differ by blast
next
  assume "enrichSinglePairWithTickers repos g = Some ep'"
  then show "distinct (map fst (tickers ep'))"
    by (rule enrich_distinct)
next
  assume "Yield opp' \<in> set (streamOpportunities repos cfg gs)"
  then obtain g0 ep0 opp0 where e: "enrichSinglePairWithTickers repos g0 = Some ep0"
    and f: "opp0 \<in> set (findOpportunitiesInSinglePair cfg ep0)"
    and v: "validateSingleOpportunity repos opp0 = Some opp'"
    using stream_yield_origin by blast
  have "leg_exchange (buyAt opp0) \<noteq> leg_exchange (sellAt opp0)"
    using find_sources_differ [OF enrich_distinct [OF e] f] .
  then show "leg_exchange (buyAt opp') \<noteq> leg_exchange (sellAt opp')"
    by (simp add: validate_keeps_fields [OF v])
qed

text \<open>
  The group X, Y of scenario A, enriched, detected, validated and yielded.
\<close>

theorem buy_and_sell_sources_differ_witness:
  "distinct (map fst (tickers enrichedXY)) \<and>
   oppA \<in> set (findOpportunitiesInSinglePair cfgA enrichedXY) \<and>
   leg_exchange (buyAt oppA) \<noteq> leg_exchange (sellAt oppA) \<and>
   enrichSinglePairWithTickers repos1 groupXY = Some enrichedXY \<and>
   Yield validA \<in> set (streamOpportunities repos1 cfgA [groupB, groupXY]) \<and>
   leg_exchange (buyAt validA) \<noteq> leg_exchange (sellAt validA)"
proof -
  have d: "distinct (map fst (tickers enrichedXY))"
    by (simp add: enrichedXY_def)
  have f: "oppA \<in> set (findOpportunitiesInSinglePair cfgA enrichedXY)"
    by (simp add: find_XY)
  have y: "Yield validA \<in> set (streamOpportunities repos1 cfgA [groupB, groupXY])"
    by (simp add: trace_B_XY)
  from buy_and_sell_sources_differ
         [of enrichedXY oppA cfgA repos1 groupXY enrichedXY validA "[groupB, groupXY]"]
       d f y enrich_XY
  show ?thesis by blast
qed

end
